theory Spec2Isabelle
  imports Main "HOL-Library.Sublist" "HOL-Library.Multiset" "HOL-Library.AList"
    "HOL-Library.Char_ord" "HOL-Library.List_Lexorder"
begin

section \<open>Strings\<close>

text \<open>
  Go strings are byte sequences; they are modelled as \<open>string\<close>. The functions of the
  Go library \<^verbatim>\<open>strings\<close> that the generator calls are written out for the ASCII range.
  Beyond ASCII the library decodes UTF-8 and consults Unicode tables; those tables are not
  part of the model, and bytes outside ASCII are passed through unchanged.
\<close>

text \<open>
  \<^verbatim>\<open>strings.ReplaceAll(s, old, new)\<close>: every non-overlapping occurrence of \<open>old\<close>, found
  from left to right, is replaced by \<open>new\<close>. An empty \<open>old\<close> matches before every character
  and at the end.
\<close>

function replaceAll :: "string \<Rightarrow> string \<Rightarrow> string \<Rightarrow> string" where
  "replaceAll [] old new = (if old = [] then new else [])"
| "replaceAll (c # cs) old new =
     (if old = [] then new @ c # replaceAll cs old new
      else if prefix old (c # cs) then new @ replaceAll (drop (length old) (c # cs)) old new
      else c # replaceAll cs old new)"
  by pat_completeness auto
termination
  by (relation "measure (\<lambda>(s, old, new). length s)") (auto simp: neq_Nil_conv)

definition lower_letters :: string where
  "lower_letters = ''abcdefghijklmnopqrstuvwxyz''"

definition upper_letters :: string where
  "upper_letters = ''ABCDEFGHIJKLMNOPQRSTUVWXYZ''"

definition digit_chars :: string where
  "digit_chars = ''0123456789''"

definition toLowerChar :: "char \<Rightarrow> char" where
  "toLowerChar c = (case map_of (zip upper_letters lower_letters) c of Some l \<Rightarrow> l | None \<Rightarrow> c)"

definition toTitleChar :: "char \<Rightarrow> char" where
  "toTitleChar c = (case map_of (zip lower_letters upper_letters) c of Some u \<Rightarrow> u | None \<Rightarrow> c)"

text \<open>
  \<^verbatim>\<open>isSeparator\<close> of package \<^verbatim>\<open>strings\<close>: ASCII letters, digits and the underscore are
  not separators, every other ASCII character is.
\<close>

definition isSeparator :: "char \<Rightarrow> bool" where
  "isSeparator r =
     (r \<notin> set digit_chars \<and> r \<notin> set lower_letters \<and> r \<notin> set upper_letters \<and> r \<noteq> CHR ''_'')"

text \<open>
  \<^verbatim>\<open>strings.Title\<close>: the letter that starts a word is mapped to title case, where a word
  starts after a separator; the character before the first one counts as a space.
\<close>

fun title_from :: "char \<Rightarrow> string \<Rightarrow> string" where
  "title_from prev [] = []"
| "title_from prev (r # rs) = (if isSeparator prev then toTitleChar r else r) # title_from r rs"

definition Title :: "string \<Rightarrow> string" where
  "Title s = title_from (CHR '' '') s"

definition ToLower :: "string \<Rightarrow> string" where
  "ToLower s = map toLowerChar s"

definition TrimPrefix :: "string \<Rightarrow> string \<Rightarrow> string" where
  "TrimPrefix s p = (if prefix p s then drop (length p) s else s)"

definition HasPrefix :: "string \<Rightarrow> string \<Rightarrow> bool" where
  "HasPrefix s p = prefix p s"

definition HasSuffix :: "string \<Rightarrow> string \<Rightarrow> bool" where
  "HasSuffix s p = suffix p s"

section \<open>Tool identifiers\<close>






section \<open>Values\<close>

text \<open>
  A value of Go's \<^verbatim>\<open>interface{}\<close> as the JSON decoder produces it: \<^verbatim>\<open>nil\<close>, a
  \<^verbatim>\<open>bool\<close>, a \<^verbatim>\<open>float64\<close>, a \<^verbatim>\<open>string\<close>, a \<^verbatim>\<open>[]interface{}\<close> or a
  \<^verbatim>\<open>map[string]interface{}\<close>. Numbers are kept abstract (type \<open>'n\<close>): the code never
  looks inside one. A map is an association list that enumerates its entries; lookups go
  through \<open>map_of\<close>, stores through \<open>AList.update\<close>, which keeps the position of a key
  that is already there.
\<close>

datatype 'n json =
  JNull
  | JBool bool
  | JNum 'n
  | JStr string
  | JArr "'n json list"
  | JObj "(string \<times> 'n json) list"

type_synonym 'n object = "(string \<times> 'n json) list"

text \<open>\<^verbatim>\<open>strings.Join(elems, sep)\<close>.\<close>

fun join :: "string \<Rightarrow> string list \<Rightarrow> string" where
  "join sep [] = []"
| "join sep [x] = x"
| "join sep (x # y # ys) = x @ sep @ join sep (y # ys)"

text \<open>
  \<^verbatim>\<open>fmt.Sprintf("%v", val)\<close> on such a value: a string prints as itself, a boolean as
  \<^verbatim>\<open>true\<close> or \<^verbatim>\<open>false\<close>, \<^verbatim>\<open>nil\<close> as \<^verbatim>\<open><nil>\<close>, a slice as its elements between brackets,
  a map as \<^verbatim>\<open>map[k:v ...]\<close> with the keys in ascending order. The printer of numbers is a
  parameter.
\<close>

fun Sprint_v :: "('n \<Rightarrow> string) \<Rightarrow> 'n json \<Rightarrow> string" where
  "Sprint_v num JNull = ''<nil>''"
| "Sprint_v num (JBool b) = (if b then ''true'' else ''false'')"
| "Sprint_v num (JNum n) = num n"
| "Sprint_v num (JStr s) = s"
| "Sprint_v num (JArr xs) = ''['' @ join '' '' (map (Sprint_v num) xs) @ '']''"
| "Sprint_v num (JObj m) =
     ''map['' @ join '' '' (map (\<lambda>(k, r). k @ '':'' @ r)
        (sort_key fst (map (\<lambda>(k, v). (k, Sprint_v num v)) m))) @ '']''"

section \<open>The OpenAPI document model\<close>

text \<open>
  The parts of the loader's types (\<^verbatim>\<open>openapi3.Parameter\<close>, \<^verbatim>\<open>openapi3.Schema\<close>,
  \<^verbatim>\<open>openapi3.RequestBody\<close>, \<^verbatim>\<open>openapi3.Operation\<close>) that the generator reads. A reference
  that is \<^verbatim>\<open>nil\<close> or whose \<^verbatim>\<open>Value\<close> is \<^verbatim>\<open>nil\<close> is \<open>None\<close>.
\<close>

record 'n schema =
  s_Type :: string
  s_Enum :: "'n json list"

record 'n parameter =
  p_Name :: string
  p_In :: string
  p_Description :: string
  p_Required :: bool
  p_Schema :: "'n schema option"

record 'n requestBody =
  rb_Description :: string
  rb_Required :: bool
  rb_Content :: "(string \<times> 'n schema option) list"

record 'n operation =
  op_Summary :: string
  op_Description :: string
  op_Parameters :: "'n parameter option list"
  op_RequestBody :: "'n requestBody option"

section \<open>The URL library\<close>

text \<open>
  A parsed \<^verbatim>\<open>url.URL\<close>, as far as \<^verbatim>\<open>buildURL\<close> depends on it. \<open>Head\<close> is what
  \<^verbatim>\<open>String()\<close> prints before the query (scheme, authority and escaped path), \<open>Tail\<close> what it
  prints after it (the fragment with its \<^verbatim>\<open>#\<close>); both depend on fields that \<^verbatim>\<open>buildURL\<close>
  never writes.
\<close>

record URL =
  Head :: string
  ForceQuery :: bool
  RawQuery :: string
  Tail :: string

definition url_String :: "URL \<Rightarrow> string" where
  "url_String u =
     Head u @ (if ForceQuery u \<or> RawQuery u \<noteq> [] then ''?'' @ RawQuery u else []) @ Tail u"

text \<open>
  \<^verbatim>\<open>url.Values\<close> is a \<^verbatim>\<open>map[string][]string\<close>; the association list holds the keys in the
  order of their first \<^verbatim>\<open>Add\<close>.
\<close>

type_synonym Values = "(string \<times> string list) list"

definition Values_Add :: "Values \<Rightarrow> string \<Rightarrow> string \<Rightarrow> Values" where
  "Values_Add v key val =
     AList.update key ((case map_of v key of Some vs \<Rightarrow> vs | None \<Rightarrow> []) @ [val]) v"

definition hex_digits :: string where
  "hex_digits = ''0123456789ABCDEF''"

text \<open>
  \<^verbatim>\<open>url.QueryEscape\<close>: letters, digits and \<^verbatim>\<open>-_.~\<close> stay, a space becomes \<^verbatim>\<open>+\<close>, every
  other byte becomes \<^verbatim>\<open>%XX\<close> with upper-case hexadecimal digits.
\<close>

definition unreserved :: "char \<Rightarrow> bool" where
  "unreserved c = (c \<in> set (lower_letters @ upper_letters @ digit_chars @ ''-_.~''))"

definition escape_byte :: "char \<Rightarrow> string" where
  "escape_byte c =
     (if unreserved c then [c]
      else if c = CHR '' '' then ''+''
      else [CHR ''%'', hex_digits ! (of_char c div 16), hex_digits ! (of_char c mod 16)])"

definition QueryEscape :: "string \<Rightarrow> string" where
  "QueryEscape s = concat (map escape_byte s)"

text \<open>
  \<^verbatim>\<open>Values.Encode\<close>: the keys in ascending byte order, the values of one key in the order
  they were added, each pair as \<^verbatim>\<open>key=value\<close>, joined by \<^verbatim>\<open>&\<close>.
\<close>

definition Values_Encode :: "Values \<Rightarrow> string" where
  "Values_Encode v =
     join ''&'' (concat (map (\<lambda>(k, vs). map (\<lambda>x. QueryEscape k @ ''='' @ QueryEscape x) vs)
       (sort_key fst v)))"

text \<open>
  \<^verbatim>\<open>url.ParseQuery\<close>, as \<^verbatim>\<open>URL.Query()\<close> uses it: the error is dropped and the pairs that
  did parse are kept. A piece with a semicolon, an empty piece and a piece with a malformed
  escape are skipped.
\<close>

fun split_on :: "char \<Rightarrow> string \<Rightarrow> string list" where
  "split_on sep [] = [[]]"
| "split_on sep (x # xs) =
     (if x = sep then [] # split_on sep xs
      else (case split_on sep xs of [] \<Rightarrow> [[x]] | p # ps \<Rightarrow> (x # p) # ps))"

definition Cut :: "string \<Rightarrow> char \<Rightarrow> string \<times> string" where
  "Cut s sep = (takeWhile (\<lambda>c. c \<noteq> sep) s, drop 1 (dropWhile (\<lambda>c. c \<noteq> sep) s))"

definition ishex :: "char \<Rightarrow> bool" where
  "ishex c = (c \<in> set ''0123456789abcdefABCDEF'')"

definition unhex :: "char \<Rightarrow> nat" where
  "unhex c =
     (if c \<in> set digit_chars then of_char c - of_char (CHR ''0'')
      else if c \<in> set ''abcdef'' then of_char c - of_char (CHR ''a'') + 10
      else of_char c - of_char (CHR ''A'') + 10)"

fun QueryUnescape :: "string \<Rightarrow> string option" where
  "QueryUnescape [] = Some []"
| "QueryUnescape (c # cs) =
     (if c = CHR ''%'' then
        (case cs of
           h1 # h2 # rest \<Rightarrow>
             (if ishex h1 \<and> ishex h2
              then map_option ((#) (char_of (16 * unhex h1 + unhex h2))) (QueryUnescape rest)
              else None)
         | _ \<Rightarrow> None)
      else map_option ((#) (if c = CHR ''+'' then CHR '' '' else c)) (QueryUnescape cs))"

definition parse_piece :: "string \<Rightarrow> Values \<Rightarrow> Values" where
  "parse_piece piece m =
     (if CHR '';'' \<in> set piece then m
      else if piece = [] then m
      else (case QueryUnescape (fst (Cut piece (CHR ''=''))) of
              None \<Rightarrow> m
            | Some key \<Rightarrow>
                (case QueryUnescape (snd (Cut piece (CHR ''=''))) of
                   None \<Rightarrow> m
                 | Some val \<Rightarrow> Values_Add m key val)))"

definition ParseQuery :: "string \<Rightarrow> Values" where
  "ParseQuery query = fold parse_piece (split_on (CHR ''&'') query) []"

text \<open>
  \<^verbatim>\<open>url.Parse\<close> is a parameter of the functions below (\<open>None\<close> when it returns an error).
  \<open>plain_Parse\<close> is the parser on the URLs of the examples: an absolute URL without
  control characters whose scheme, authority and path \<^verbatim>\<open>String()\<close> prints back as they
  were written. The fragment is cut at the first \<^verbatim>\<open>#\<close>, the query at the first \<^verbatim>\<open>?\<close>; a
  lone trailing \<^verbatim>\<open>?\<close> sets \<^verbatim>\<open>ForceQuery\<close>.
\<close>

definition plain_Parse :: "string \<Rightarrow> URL option" where
  "plain_Parse rawURL =
     (let u = takeWhile (\<lambda>c. c \<noteq> CHR ''#'') rawURL;
          frag = dropWhile (\<lambda>c. c \<noteq> CHR ''#'') rawURL
      in if \<exists>c \<in> set u. of_char c < (32::nat) \<or> of_char c = (127::nat) then None
         else if HasSuffix u ''?'' \<and> count_list u (CHR ''?'') = 1
         then Some \<lparr>Head = butlast u, ForceQuery = True, RawQuery = [], Tail = (if length frag > 1 then frag else [])\<rparr>
         else Some \<lparr>Head = fst (Cut u (CHR ''?'')), ForceQuery = False,
                    RawQuery = snd (Cut u (CHR ''?'')), Tail = (if length frag > 1 then frag else [])\<rparr>)"

section \<open>The request planner\<close>

text \<open>The first loop of \<^verbatim>\<open>buildURL\<close>: path parameters replace their placeholders.\<close>

definition replace_path_param ::
  "('n \<Rightarrow> string) \<Rightarrow> 'n object \<Rightarrow> 'n parameter option \<Rightarrow> string \<Rightarrow> string" where
  "replace_path_param num args paramRef path =
     (case paramRef of
        None \<Rightarrow> path
      | Some param \<Rightarrow>
          (if p_In param = ''path'' then
             (case map_of args (p_Name param) of
                Some val \<Rightarrow> replaceAll path (''{'' @ p_Name param @ ''}'') (Sprint_v num val)
              | None \<Rightarrow> path)
           else path))"

text \<open>The second loop of \<^verbatim>\<open>buildURL\<close>: query parameters are added to the values.\<close>

definition add_query_param ::
  "('n \<Rightarrow> string) \<Rightarrow> 'n object \<Rightarrow> 'n parameter option \<Rightarrow> Values \<Rightarrow> Values" where
  "add_query_param num args paramRef q =
     (case paramRef of
        None \<Rightarrow> q
      | Some param \<Rightarrow>
          (if p_In param = ''query'' then
             (case map_of args (p_Name param) of
                Some val \<Rightarrow> Values_Add q (p_Name param) (Sprint_v num val)
              | None \<Rightarrow> q)
           else q))"

text \<open>The normalisation of base URL and path in \<^verbatim>\<open>buildURL\<close>, as the pair it leaves.\<close>

definition join_base_path :: "string \<Rightarrow> string \<Rightarrow> string \<times> string" where
  "join_base_path baseURL path =
     (if \<not> HasSuffix baseURL ''/'' \<and> \<not> HasPrefix path ''/'' then (baseURL @ ''/'', path)
      else if HasSuffix baseURL ''/'' \<and> HasPrefix path ''/'' then (baseURL, drop 1 path)
      else (baseURL, path))"

definition buildURL ::
  "(string \<Rightarrow> URL option) \<Rightarrow> ('n \<Rightarrow> string) \<Rightarrow> string \<Rightarrow> string \<Rightarrow> 'n object
     \<Rightarrow> 'n parameter option list \<Rightarrow> string" where
  "buildURL parse num baseURL path args parameters =
     (let path = fold (replace_path_param num args) parameters path;
          (baseURL, path) = join_base_path baseURL path
      in case parse (baseURL @ path) of
           None \<Rightarrow> baseURL @ path
         | Some u \<Rightarrow>
             (let q = fold (add_query_param num args) parameters (ParseQuery (RawQuery u))
              in url_String (u\<lparr>RawQuery := Values_Encode q\<rparr>)))"

datatype error =
  SyntaxError
  | UnmarshalTypeError
  | MarshalError
  | NewRequestError
  | CreateRequestFailed error
  | APIRequestFailed
  | ReadResponseFailed
  | APIErrorStatus int string

record request =
  r_Method :: string
  r_URL :: string
  r_Header :: "(string \<times> string) list"
  r_Body :: "string option"

text \<open>
  \<^verbatim>\<open>http.NewRequestWithContext\<close> parses the URL and fails when that fails. The methods it
  is called with are the keys of \<^verbatim>\<open>Operations()\<close>, which it accepts.
\<close>

definition NewRequestWithContext ::
  "(string \<Rightarrow> URL option) \<Rightarrow> string \<Rightarrow> string \<Rightarrow> string option \<Rightarrow> error + request" where
  "NewRequestWithContext parse method url body =
     (case parse url of
        None \<Rightarrow> Inl NewRequestError
      | Some u \<Rightarrow> Inr \<lparr>r_Method = method, r_URL = url, r_Header = [], r_Body = body\<rparr>)"

text \<open>The inner loop of \<^verbatim>\<open>createHTTPRequest\<close> over the declared parameters.\<close>

definition isPathOrQuery :: "'n operation \<Rightarrow> string \<Rightarrow> bool" where
  "isPathOrQuery op name =
     list_ex (\<lambda>paramRef.
        case paramRef of
          None \<Rightarrow> False
        | Some param \<Rightarrow> (p_In param = ''path'' \<or> p_In param = ''query'') \<and> p_Name param = name)
       (op_Parameters op)"

text \<open>
  The body that \<^verbatim>\<open>createHTTPRequest\<close> computes before it creates the request: \<open>Inr None\<close>
  is the \<^verbatim>\<open>nil\<close> slice. \<^verbatim>\<open>json.Marshal\<close> is a parameter (\<open>None\<close> when it returns an error).
\<close>

definition request_body ::
  "('n json \<Rightarrow> string option) \<Rightarrow> string \<Rightarrow> 'n object \<Rightarrow> 'n operation \<Rightarrow> error + string option" where
  "request_body marshal method args op =
     (if method = ''POST'' \<or> method = ''PUT'' \<or> method = ''PATCH'' then
        (case map_of args ''body'' of
           Some bodyArg \<Rightarrow>
             (case bodyArg of
                JStr bodyStr \<Rightarrow> Inr (Some bodyStr)
              | _ \<Rightarrow>
                  (case marshal bodyArg of
                     None \<Rightarrow> Inl MarshalError
                   | Some b \<Rightarrow> Inr (Some b)))
         | None \<Rightarrow>
             (let bodyMap = filter (\<lambda>(name, val). \<not> isPathOrQuery op name) args
              in if length bodyMap > 0 then
                   (case marshal (JObj bodyMap) of
                      None \<Rightarrow> Inl MarshalError
                    | Some b \<Rightarrow> Inr (Some b))
                 else Inr None))
      else Inr None)"

definition createHTTPRequest ::
  "(string \<Rightarrow> URL option) \<Rightarrow> ('n json \<Rightarrow> string option) \<Rightarrow> string \<Rightarrow> string \<Rightarrow> 'n object
     \<Rightarrow> 'n operation \<Rightarrow> error + request" where
  "createHTTPRequest parse marshal method url args op =
     (case request_body marshal method args op of
        Inl e \<Rightarrow> Inl e
      | Inr body \<Rightarrow> NewRequestWithContext parse method url body)"

section \<open>The live tool handler\<close>

record config =
  service_url :: string
  service_authorization :: string

record response =
  StatusCode :: int
  Body :: "string option"

datatype callToolResult = ToolResultText string

text \<open>\<^verbatim>\<open>Header.Set\<close> on the canonical keys the handler uses.\<close>

definition Header_Set :: "request \<Rightarrow> string \<Rightarrow> string \<Rightarrow> request" where
  "Header_Set req key val = req\<lparr>r_Header := AList.update key val (r_Header req)\<rparr>"

text \<open>
  The handler that \<^verbatim>\<open>createToolHandler\<close> returns. The configuration it reads is
  \<open>cfg\<close>; the HTTP client is the parameter \<open>client_Do\<close> (\<open>None\<close> when the call fails, a
  response whose \<open>Body\<close> is \<open>None\<close> when reading it fails). The result comes with the list
  of the requests handed to the client.
\<close>

definition createToolHandler ::
  "config \<Rightarrow> (string \<Rightarrow> URL option) \<Rightarrow> ('n \<Rightarrow> string) \<Rightarrow> ('n json \<Rightarrow> string option)
     \<Rightarrow> (request \<Rightarrow> response option) \<Rightarrow> 'n operation \<Rightarrow> string \<Rightarrow> string \<Rightarrow> 'n object
     \<Rightarrow> (error + callToolResult) \<times> request list" where
  "createToolHandler cfg parse num marshal client_Do op path method arguments =
     (let serviceURL = service_url cfg in
      if serviceURL = [] then
        (Inr (ToolResultText (''Mock response for '' @ method @ '' '' @ path @ [CHR 0x0A]
           @ ''Params: '' @ Sprint_v num (JObj arguments))), [])
      else
        (let fullURL = buildURL parse num serviceURL path arguments (op_Parameters op) in
         case createHTTPRequest parse marshal method fullURL arguments op of
           Inl err \<Rightarrow> (Inl (CreateRequestFailed err), [])
         | Inr httpReq \<Rightarrow>
             (let authHeader = service_authorization cfg;
                  httpReq = (if authHeader \<noteq> [] then Header_Set httpReq ''Authorization'' authHeader
                             else httpReq);
                  httpReq = Header_Set httpReq ''Content-Type'' ''application/json'';
                  httpReq = Header_Set httpReq ''Accept'' ''application/json''
              in case client_Do httpReq of
                   None \<Rightarrow> (Inl APIRequestFailed, [httpReq])
                 | Some resp \<Rightarrow>
                     (case Body resp of
                        None \<Rightarrow> (Inl ReadResponseFailed, [httpReq])
                      | Some body \<Rightarrow>
                          (if StatusCode resp \<ge> 400
                           then (Inl (APIErrorStatus (StatusCode resp) body), [httpReq])
                           else (Inr (ToolResultText body), [httpReq]))))))"

text \<open>
  Whether \<^verbatim>\<open>processPathsIntoTools\<close> gives the tool a \<^verbatim>\<open>body\<close> property: the operation
  has a request body and some entry of its content map carries a schema.
\<close>

definition hasBody :: "'n operation \<Rightarrow> bool" where
  "hasBody op =
     (case op_RequestBody op of
        None \<Rightarrow> False
      | Some reqBody \<Rightarrow> list_ex (\<lambda>(mediaName, mediaSchema). mediaSchema \<noteq> None) (rb_Content reqBody))"

text \<open>
  The names that a path or query parameter of the operation claims, in the words of the
  specification.
\<close>

definition claimed_names :: "'n operation \<Rightarrow> string list" where
  "claimed_names op =
     concat (map (\<lambda>paramRef.
        case paramRef of
          None \<Rightarrow> []
        | Some param \<Rightarrow>
            (if p_In param = ''path'' \<or> p_In param = ''query'' then [p_Name param] else []))
       (op_Parameters op))"

text \<open>
  The query parameters of the operation that are present in the arguments, as pairs of name
  and printed value, in the order of their declaration.
\<close>

definition present_query_pairs ::
  "('n \<Rightarrow> string) \<Rightarrow> 'n object \<Rightarrow> 'n parameter option list \<Rightarrow> (string \<times> string) list" where
  "present_query_pairs num args parameters =
     concat (map (\<lambda>paramRef.
        case paramRef of
          None \<Rightarrow> []
        | Some param \<Rightarrow>
            (if p_In param = ''query'' then
               (case map_of args (p_Name param) of
                  Some val \<Rightarrow> [(p_Name param, Sprint_v num val)]
                | None \<Rightarrow> [])
             else []))
       parameters)"

text \<open>The pairs that a \<^verbatim>\<open>url.Values\<close> holds, key by key.\<close>

definition flat_values :: "Values \<Rightarrow> (string \<times> string) list" where
  "flat_values v = concat (map (\<lambda>(k, vs). map (Pair k) vs) v)"

definition encode_pairs :: "(string \<times> string) list \<Rightarrow> string" where
  "encode_pairs ps = join ''&'' (map (\<lambda>(k, x). QueryEscape k @ ''='' @ QueryEscape x) ps)"

definition values_of :: "Values \<Rightarrow> string \<Rightarrow> string list" where
  "values_of v k = (case map_of v k of None \<Rightarrow> [] | Some vs \<Rightarrow> vs)"

section \<open>The tool builder\<close>




text \<open>
  \<^verbatim>\<open>doc.Paths.Map()\<close> and \<^verbatim>\<open>pathItem.Operations()\<close> are Go maps, and a \<^verbatim>\<open>range\<close> over a
  map visits the entries in an order the runtime chooses anew each time. The document is
  therefore given to the loops as the enumeration that the \<^verbatim>\<open>range\<close> statements produce: a
  list of the paths, each with a list of its methods and operations.
\<close>

type_synonym 'n pathItem = "(string \<times> 'n operation option) list"

type_synonym 'n paths = "(string \<times> 'n pathItem) list"

















section \<open>The schema normaliser\<close>

text \<open>
  The size of a value, for the termination of the recursive passes: every value counts
  one, a slice or map one more than its elements.
\<close>

fun jsize :: "'n json \<Rightarrow> nat" where
  "jsize (JArr xs) = Suc (sum_list (map jsize xs))"
| "jsize (JObj kvs) = Suc (sum_list (map (\<lambda>(k, v). jsize v) kvs))"
| "jsize v = 1"

definition osize :: "'n object \<Rightarrow> nat" where
  "osize m = sum_list (map (\<lambda>(k, v). jsize v) m)"

text \<open>
  The loop of \<^verbatim>\<open>fixAnyOf\<close> over the two alternatives; the state is the pair of
  \<^verbatim>\<open>mainType\<close> (\<open>None\<close> for \<^verbatim>\<open>nil\<close>) and \<^verbatim>\<open>hasNull\<close>.
\<close>

definition scan_alternative ::
  "'n json \<Rightarrow> 'n object option \<times> bool \<Rightarrow> 'n object option \<times> bool" where
  "scan_alternative typeObj st =
     (case typeObj of
        JObj obj \<Rightarrow>
          (case map_of obj ''type'' of
             Some typeVal \<Rightarrow>
               (if typeVal = JStr ''null'' then (fst st, True)
                else (case typeVal of JStr t \<Rightarrow> (Some obj, snd st) | _ \<Rightarrow> st))
           | None \<Rightarrow> st)
      | _ \<Rightarrow> st)"

text \<open>
  \<^verbatim>\<open>fixAnyOf\<close>. The fields of \<^verbatim>\<open>mainType\<close> are stored into the schema one by one
  (\<open>AList.merge\<close>), then \<^verbatim>\<open>nullable\<close> is set and \<^verbatim>\<open>anyOf\<close> deleted.
\<close>

definition fixAnyOf :: "'n object \<Rightarrow> 'n object" where
  "fixAnyOf schema =
     (case map_of schema ''anyOf'' of
        Some (JArr anyOf) \<Rightarrow>
          (if length anyOf = 2 then
             (case fold scan_alternative anyOf (None, False) of
                (Some mainType, True) \<Rightarrow>
                  AList.delete ''anyOf''
                    (AList.update ''nullable'' (JBool True) (AList.merge schema mainType))
              | _ \<Rightarrow> schema)
           else schema)
      | _ \<Rightarrow> schema)"

lemma jsize_pos: "0 < jsize v"
  by (cases v) auto

lemma map_of_jsize: "map_of m k = Some v \<Longrightarrow> jsize v \<le> osize m"
  by (induction m) (auto simp: osize_def split: if_splits)

lemma in_set_jsize: "(k, v) \<in> set m \<Longrightarrow> jsize v \<le> osize m"
  by (induction m) (auto simp: osize_def)

lemma osize_delete_update:
  "osize (AList.delete k (AList.update k' v m)) \<le> osize (AList.delete k m) + jsize v"
  by (induction m) (auto simp: osize_def)

lemma osize_delete_merge:
  "osize (AList.delete k (AList.merge m ps)) \<le> osize (AList.delete k m) + osize ps"
proof (induction ps)
  case Nil
  then show ?case by (simp add: AList.merge_def osize_def)
next
  case (Cons p ps)
  obtain a b where p: "p = (a, b)" by (cases p)
  have "osize (AList.delete k (AList.merge m (p # ps)))
          = osize (AList.delete k (AList.update a b (AList.merge m ps)))"
    by (simp add: AList.merge_def p)
  also have "\<dots> \<le> osize (AList.delete k (AList.merge m ps)) + jsize b"
    by (rule osize_delete_update)
  also have "\<dots> \<le> osize (AList.delete k m) + osize ps + jsize b"
    using Cons.IH by simp
  finally show ?case by (simp add: p osize_def)
qed

lemma osize_delete_le: "osize (AList.delete k m) \<le> osize m"
  by (induction m) (auto simp: osize_def)

lemma osize_delete_key:
  "map_of m k = Some v \<Longrightarrow> osize (AList.delete k m) + jsize v \<le> osize m"
proof (induction m)
  case Nil
  then show ?case by simp
next
  case (Cons e m)
  obtain a b where e: "e = (a, b)" by (cases e)
  show ?case
  proof (cases "a = k")
    case True
    with Cons.prems e have "b = v" by simp
    with True e osize_delete_le [of k m] show ?thesis by (simp add: osize_def)
  next
    case False
    with Cons e show ?thesis by (simp add: osize_def)
  qed
qed

lemma scan_alternative_main:
  "fold scan_alternative xs st = (Some mainType, b) \<Longrightarrow>
   fst st = Some mainType \<or> JObj mainType \<in> set xs"
proof (induction xs arbitrary: st)
  case Nil
  then show ?case by simp
next
  case (Cons x xs)
  from Cons.prems have "fold scan_alternative xs (scan_alternative x st) = (Some mainType, b)"
    by simp
  from Cons.IH [OF this] show ?case
    by (auto simp: scan_alternative_def split: json.splits option.splits if_splits)
qed

lemma osize_fixAnyOf: "osize (fixAnyOf schema) \<le> osize schema"
proof (cases "map_of schema ''anyOf''")
  case None
  then show ?thesis by (simp add: fixAnyOf_def)
next
  case (Some a)
  show ?thesis
  proof (cases a)
    case (JArr anyOf)
    show ?thesis
    proof (cases "length anyOf = 2")
      case False
      with Some JArr show ?thesis by (simp add: fixAnyOf_def)
    next
      case True
      obtain mt hasNull where f: "fold scan_alternative anyOf (None, False) = (mt, hasNull)"
        by (cases "fold scan_alternative anyOf (None, False)")
      show ?thesis
      proof (cases mt)
        case None
        with Some JArr True f show ?thesis by (simp add: fixAnyOf_def)
      next
        case (Some mainType)
        show ?thesis
        proof (cases hasNull)
          case False
          with \<open>map_of schema ''anyOf'' = Some a\<close> JArr True f Some show ?thesis
            by (simp add: fixAnyOf_def)
        next
          case hn: True
          from f Some have "JObj mainType \<in> set anyOf"
            using scan_alternative_main [of anyOf "(None, False)" mainType hasNull] by simp
          then have "jsize (JObj mainType) \<in> set (map jsize anyOf)"
            unfolding set_map by (rule imageI)
          then have "jsize (JObj mainType) \<le> sum_list (map jsize anyOf)"
            by (simp add: member_le_sum_list del: jsize.simps)
          then have m: "osize mainType + 2 \<le> jsize (JArr anyOf)"
            by (simp add: osize_def)
          have r: "fixAnyOf schema = AList.delete ''anyOf''
                    (AList.update ''nullable'' (JBool True) (AList.merge schema mainType))"
            using \<open>map_of schema ''anyOf'' = Some a\<close> JArr True f Some hn
            by (simp add: fixAnyOf_def)
          have "osize (fixAnyOf schema)
                  \<le> osize (AList.delete ''anyOf'' (AList.merge schema mainType)) + 1"
            unfolding r using osize_delete_update [of "''anyOf''" "''nullable''" "JBool True"]
            by (metis jsize.simps(4))
          also have "\<dots> \<le> osize (AList.delete ''anyOf'' schema) + osize mainType + 1"
            using osize_delete_merge [of "''anyOf''" schema mainType] by simp
          also have "\<dots> \<le> osize (AList.delete ''anyOf'' schema) + jsize (JArr anyOf)"
            using m by simp
          also have "\<dots> \<le> osize schema"
            using osize_delete_key [of schema "''anyOf''" "JArr anyOf"]
              \<open>map_of schema ''anyOf'' = Some a\<close> JArr by simp
          finally show ?thesis .
        qed
      qed
    qed
  qed (use Some in \<open>simp_all add: fixAnyOf_def\<close>)
qed

text \<open>
  The loop that \<^verbatim>\<open>fixNullTypes\<close> and \<^verbatim>\<open>removeNonStandardFields\<close> share: when
  \<^verbatim>\<open>schema["properties"]\<close> is a map, every entry of it that is itself a map is replaced by
  what \<open>f\<close> makes of it. The Go code mutates the entry in place.
\<close>

definition update_properties :: "'n object \<Rightarrow> ('n object \<Rightarrow> 'n object) \<Rightarrow> 'n object" where
  "update_properties schema f =
     (case map_of schema ''properties'' of
        Some (JObj properties) \<Rightarrow>
          AList.update ''properties''
            (JObj (map (\<lambda>(name, propValue).
               (name, case propValue of JObj propObj \<Rightarrow> JObj (f propObj) | _ \<Rightarrow> propValue))
              properties))
            schema
      | _ \<Rightarrow> schema)"

lemma update_properties_cong [fundef_cong]:
  assumes "schema = schema'"
    and "\<And>properties name propObj.
           map_of schema' ''properties'' = Some (JObj properties) \<Longrightarrow>
           (name, JObj propObj) \<in> set properties \<Longrightarrow> f propObj = g propObj"
  shows "update_properties schema f = update_properties schema' g"
proof (cases "map_of schema' ''properties''")
  case None
  with assms(1) show ?thesis by (simp add: update_properties_def)
next
  case (Some a)
  show ?thesis
  proof (cases a)
    case (JObj properties)
    have "map (\<lambda>(name, propValue).
               (name, case propValue of JObj propObj \<Rightarrow> JObj (f propObj) | _ \<Rightarrow> propValue))
              properties
        = map (\<lambda>(name, propValue).
               (name, case propValue of JObj propObj \<Rightarrow> JObj (g propObj) | _ \<Rightarrow> propValue))
              properties"
      using assms(2) [OF Some [unfolded JObj]]
      by (intro map_cong [OF refl]) (auto split: json.splits)
    with assms(1) Some JObj show ?thesis by (simp only: update_properties_def option.case json.case)
  qed (use assms(1) Some in \<open>simp_all add: update_properties_def\<close>)
qed

text \<open>
  \<^verbatim>\<open>fixNullTypes\<close>: every property with an \<^verbatim>\<open>anyOf\<close> key goes through \<^verbatim>\<open>fixAnyOf\<close>, then
  the pass descends into the property as \<^verbatim>\<open>fixAnyOf\<close> left it.
\<close>

function fixNullTypes :: "'n object \<Rightarrow> 'n object" where
  "fixNullTypes schema =
     update_properties schema
       (\<lambda>propObj. fixNullTypes
          (if map_of propObj ''anyOf'' \<noteq> None then fixAnyOf propObj else propObj))"
  by pat_completeness auto
termination
proof (relation "measure osize")
  show "wf (measure osize)" by simp
next
  fix schema :: "'n object" and properties name propObj
  assume a: "map_of schema ''properties'' = Some (JObj properties)"
    "(name, JObj propObj) \<in> set properties"
  from a have "jsize (JObj propObj) \<le> osize properties"
    using in_set_jsize [of name "JObj propObj" properties] by simp
  moreover from a have "jsize (JObj properties) \<le> osize schema"
    using map_of_jsize [of schema "''properties''" "JObj properties"] by simp
  ultimately have "osize propObj < osize schema"
    by (simp add: osize_def)
  moreover have "osize (fixAnyOf propObj) \<le> osize propObj" by (rule osize_fixAnyOf)
  ultimately show "(if map_of propObj ''anyOf'' \<noteq> None then fixAnyOf propObj else propObj, schema)
      \<in> measure osize"
    by simp
qed

declare fixNullTypes.simps [simp del]


definition nonStandardFields :: "string list" where
  "nonStandardFields = [''error_messages'', ''hide_error_details'']"

definition delete_fields :: "'n object \<Rightarrow> 'n object" where
  "delete_fields schema =
     fold (\<lambda>field s. if map_of s field \<noteq> None then AList.delete field s else s)
       nonStandardFields schema"

lemma map_of_delete_fields:
  "map_of (delete_fields m) k = (if k \<in> set nonStandardFields then None else map_of m k)"
  by (auto simp: delete_fields_def nonStandardFields_def delete_conv')

lemma properties_smaller:
  assumes "map_of schema ''properties'' = Some (JObj properties)"
    and "(name, JObj propObj) \<in> set properties"
  shows "osize propObj < osize schema"
proof -
  from assms(1) have "jsize (JObj properties) \<le> osize schema" by (rule map_of_jsize)
  moreover from assms(2) have "jsize (JObj propObj) \<le> osize properties" by (rule in_set_jsize)
  ultimately show ?thesis by (simp add: osize_def)
qed

lemma items_smaller:
  assumes "map_of schema ''items'' = Some (JObj items)"
  shows "osize items < osize schema"
proof -
  from assms have "jsize (JObj items) \<le> osize schema" by (rule map_of_jsize)
  then show ?thesis by (simp add: osize_def)
qed

lemma delete_fields_Some: "map_of (delete_fields schema) k = Some v \<Longrightarrow> map_of schema k = Some v"
  by (simp add: map_of_delete_fields split: if_splits)

text \<open>
  \<^verbatim>\<open>removeNonStandardFields\<close>: the listed fields are deleted, then the pass descends into
  the properties and into \<^verbatim>\<open>items\<close>. The update of \<^verbatim>\<open>properties\<close> leaves the key
  \<^verbatim>\<open>items\<close> as it is, so both lookups read the schema after the deletion
  (\<open>removeNonStandardFields_sequential\<close> below states the passes in the order of the code).
\<close>

function removeNonStandardFields :: "'n object \<Rightarrow> 'n object" where
  "removeNonStandardFields schema =
     (case map_of (delete_fields schema) ''items'' of
        Some (JObj items) \<Rightarrow>
          AList.update ''items'' (JObj (removeNonStandardFields items))
            (update_properties (delete_fields schema) removeNonStandardFields)
      | _ \<Rightarrow> update_properties (delete_fields schema) removeNonStandardFields)"
  by pat_completeness auto
termination
  by (relation "measure osize")
     (auto dest!: delete_fields_Some intro: properties_smaller items_smaller)

declare removeNonStandardFields.simps [simp del]

lemma removeNonStandardFields_sequential:
  "removeNonStandardFields schema =
     (let s1 = delete_fields schema;
          s2 = update_properties s1 removeNonStandardFields
      in case map_of s2 ''items'' of
           Some (JObj items) \<Rightarrow>
             AList.update ''items'' (JObj (removeNonStandardFields items)) s2
         | _ \<Rightarrow> s2)"
proof -
  have "map_of (update_properties (delete_fields schema) removeNonStandardFields) ''items''
          = map_of (delete_fields schema) ''items''"
    by (auto simp: update_properties_def update_conv' split: option.splits json.splits)
  then show ?thesis
    by (subst removeNonStandardFields.simps) (simp add: Let_def split: option.splits json.splits)
qed


text \<open>The steps of \<^verbatim>\<open>preprocessOpenAPISpec\<close> on the decoded map, in their order.\<close>

definition fix_version :: "'n object \<Rightarrow> 'n object" where
  "fix_version spec =
     (case map_of spec ''openapi'' of
        Some (JStr version) \<Rightarrow>
          (if HasPrefix version ''3.1'' then AList.update ''openapi'' (JStr ''3.0.0'') spec
           else spec)
      | _ \<Rightarrow> spec)"

definition fix_schema_value :: "'n json \<Rightarrow> 'n json" where
  "fix_schema_value schemaValue =
     (case schemaValue of
        JObj schema \<Rightarrow> JObj (removeNonStandardFields (fixNullTypes schema))
      | _ \<Rightarrow> schemaValue)"

definition fix_components :: "'n object \<Rightarrow> 'n object" where
  "fix_components spec =
     (case map_of spec ''components'' of
        Some (JObj components) \<Rightarrow>
          (case map_of components ''schemas'' of
             Some (JObj schemas) \<Rightarrow>
               AList.update ''components''
                 (JObj (AList.update ''schemas''
                    (JObj (map (\<lambda>(name, schemaValue). (name, fix_schema_value schemaValue)) schemas))
                    components))
                 spec
           | _ \<Rightarrow> spec)
      | _ \<Rightarrow> spec)"

definition fix_param :: "'n json \<Rightarrow> 'n json" where
  "fix_param paramInterface =
     (case paramInterface of
        JObj param \<Rightarrow>
          (case map_of param ''schema'' of
             Some (JObj schema) \<Rightarrow> JObj (AList.update ''schema'' (JObj (fixAnyOf schema)) param)
           | _ \<Rightarrow> paramInterface)
      | _ \<Rightarrow> paramInterface)"

definition fix_method :: "'n json \<Rightarrow> 'n json" where
  "fix_method methodValue =
     (case methodValue of
        JObj method \<Rightarrow>
          (case map_of method ''parameters'' of
             Some (JArr params) \<Rightarrow>
               JObj (AList.update ''parameters'' (JArr (map fix_param params)) method)
           | _ \<Rightarrow> methodValue)
      | _ \<Rightarrow> methodValue)"

definition fix_path :: "'n json \<Rightarrow> 'n json" where
  "fix_path pathValue =
     (case pathValue of
        JObj path \<Rightarrow> JObj (map (\<lambda>(key, methodValue). (key, fix_method methodValue)) path)
      | _ \<Rightarrow> pathValue)"

definition fix_paths :: "'n object \<Rightarrow> 'n object" where
  "fix_paths spec =
     (case map_of spec ''paths'' of
        Some (JObj paths) \<Rightarrow>
          AList.update ''paths''
            (JObj (map (\<lambda>(key, pathValue). (key, fix_path pathValue)) paths)) spec
      | _ \<Rightarrow> spec)"

definition preprocess_tree :: "'n object \<Rightarrow> 'n object" where
  "preprocess_tree spec = fix_paths (fix_components (fix_version spec))"

text \<open>
  \<^verbatim>\<open>preprocessOpenAPISpec\<close>. Its argument is what the syntax pass of \<^verbatim>\<open>json.Unmarshal\<close>
  reads from the bytes: \<open>None\<close> when they are not JSON, the value otherwise. Decoding into
  a \<^verbatim>\<open>map[string]interface{}\<close> accepts an object, leaves the map \<^verbatim>\<open>nil\<close> on \<^verbatim>\<open>null\<close> and
  fails on every other value. On the \<^verbatim>\<open>nil\<close> map every lookup misses and \<^verbatim>\<open>json.Marshal\<close>
  writes \<^verbatim>\<open>null\<close>. \<^verbatim>\<open>json.Marshal\<close> is a parameter (\<open>None\<close> when it returns an error).
\<close>

definition preprocessOpenAPISpec ::
  "('n json \<Rightarrow> string option) \<Rightarrow> 'n json option \<Rightarrow> error + string" where
  "preprocessOpenAPISpec marshal decoded =
     (case decoded of
        None \<Rightarrow> Inl SyntaxError
      | Some JNull \<Rightarrow>
          (case marshal JNull of None \<Rightarrow> Inl MarshalError | Some data \<Rightarrow> Inr data)
      | Some (JObj spec) \<Rightarrow>
          (case marshal (JObj (preprocess_tree spec)) of
             None \<Rightarrow> Inl MarshalError
           | Some data \<Rightarrow> Inr data)
      | Some _ \<Rightarrow> Inl UnmarshalTypeError)"

text \<open>
  The null-union that \<^verbatim>\<open>fixAnyOf\<close> rewrites: an \<^verbatim>\<open>anyOf\<close> of two alternatives, one a map
  whose \<^verbatim>\<open>type\<close> is \<^verbatim>\<open>"null"\<close>, one a map whose \<^verbatim>\<open>type\<close> is another string.
  \<open>main_alternative\<close> is the alternative whose fields are copied: the last one of that kind.
\<close>

definition is_null_alternative :: "'n json \<Rightarrow> bool" where
  "is_null_alternative v =
     (case v of JObj obj \<Rightarrow> map_of obj ''type'' = Some (JStr ''null'') | _ \<Rightarrow> False)"

definition is_typed_alternative :: "'n json \<Rightarrow> bool" where
  "is_typed_alternative v =
     (case v of
        JObj obj \<Rightarrow> (case map_of obj ''type'' of Some (JStr t) \<Rightarrow> t \<noteq> ''null'' | _ \<Rightarrow> False)
      | _ \<Rightarrow> False)"

definition null_union :: "'n object \<Rightarrow> bool" where
  "null_union schema =
     (case map_of schema ''anyOf'' of
        Some (JArr [a, b]) \<Rightarrow>
          (is_null_alternative a \<or> is_null_alternative b)
          \<and> (is_typed_alternative a \<or> is_typed_alternative b)
      | _ \<Rightarrow> False)"

definition main_alternative :: "'n object \<Rightarrow> 'n object option" where
  "main_alternative schema =
     (case map_of schema ''anyOf'' of
        Some (JArr [a, b]) \<Rightarrow>
          (if is_typed_alternative b then (case b of JObj obj \<Rightarrow> Some obj | _ \<Rightarrow> None)
           else if is_typed_alternative a then (case a of JObj obj \<Rightarrow> Some obj | _ \<Rightarrow> None)
           else None)
      | _ \<Rightarrow> None)"

lemmas normalizer_eval_defs =
  preprocess_tree_def fix_paths_def fix_path_def fix_method_def fix_param_def fix_components_def
  fix_schema_value_def fix_version_def fixAnyOf_def scan_alternative_def update_properties_def
  delete_fields_def nonStandardFields_def AList.merge_def

lemma fixNullTypes_Nil: "fixNullTypes [] = []"
  by (subst fixNullTypes.simps) (simp add: update_properties_def)

lemma fixNullTypes_Cons:
  "fixNullTypes (e # es) =
     update_properties (e # es)
       (\<lambda>propObj. fixNullTypes
          (if map_of propObj ''anyOf'' \<noteq> None then fixAnyOf propObj else propObj))"
  by (rule fixNullTypes.simps)

lemma removeNonStandardFields_Nil: "removeNonStandardFields [] = []"
  by (subst removeNonStandardFields.simps)
     (simp add: update_properties_def delete_fields_def nonStandardFields_def)

lemma removeNonStandardFields_Cons:
  "removeNonStandardFields (e # es) =
     (case map_of (delete_fields (e # es)) ''items'' of
        Some (JObj items) \<Rightarrow>
          AList.update ''items'' (JObj (removeNonStandardFields items))
            (update_properties (delete_fields (e # es)) removeNonStandardFields)
      | _ \<Rightarrow> update_properties (delete_fields (e # es)) removeNonStandardFields)"
  by (rule removeNonStandardFields.simps)

lemmas normalizer_eval =
  normalizer_eval_defs fixNullTypes_Nil fixNullTypes_Cons removeNonStandardFields_Nil
  removeNonStandardFields_Cons

text \<open>
  A schema whose properties, at every depth, hold no null-union: the condition that
  \<^verbatim>\<open>fixNullTypes\<close> establishes, as a check that runs over the properties the way the
  pass does.
\<close>

definition all_properties :: "'n object \<Rightarrow> ('n object \<Rightarrow> bool) \<Rightarrow> bool" where
  "all_properties schema P =
     (case map_of schema ''properties'' of
        Some (JObj properties) \<Rightarrow>
          list_all (\<lambda>(name, propValue). case propValue of JObj propObj \<Rightarrow> P propObj | _ \<Rightarrow> True)
            properties
      | _ \<Rightarrow> True)"

lemma all_properties_cong [fundef_cong]:
  assumes "schema = schema'"
    and "\<And>properties name propObj.
           map_of schema' ''properties'' = Some (JObj properties) \<Longrightarrow>
           (name, JObj propObj) \<in> set properties \<Longrightarrow> P propObj = Q propObj"
  shows "all_properties schema P = all_properties schema' Q"
  using assms
  by (auto simp: all_properties_def list_all_iff split: option.splits json.splits)

function clean_props :: "'n object \<Rightarrow> bool" where
  "clean_props schema = all_properties schema (\<lambda>propObj. \<not> null_union propObj \<and> clean_props propObj)"
  by pat_completeness auto
termination
  by (relation "measure osize") (auto intro: properties_smaller)

declare clean_props.simps [simp del]

text \<open>What \<^verbatim>\<open>fixNullTypes\<close> does to one property before it descends into it.\<close>

definition fix_property :: "'n object \<Rightarrow> 'n object" where
  "fix_property propObj =
     (if map_of propObj ''anyOf'' \<noteq> None then fixAnyOf propObj else propObj)"



section \<open>The emitted Python\<close>











section \<open>Properties of the string functions\<close>





lemmas string_eval_defs =
  Title_def ToLower_def TrimPrefix_def isSeparator_def toLowerChar_def toTitleChar_def
  lower_letters_def upper_letters_def digit_chars_def HasPrefix_def HasSuffix_def

section \<open>Claims about tool identifiers\<close>



section \<open>Claims about the handler and the request body\<close>

lemma isPathOrQuery_claimed: "isPathOrQuery op name \<longleftrightarrow> name \<in> set (claimed_names op)"
  unfolding isPathOrQuery_def claimed_names_def list_ex_iff
  by (auto split: option.splits if_splits)

text \<open>
  C10: with an empty service URL the handler hands no request to the HTTP client and
  returns, without an error, the text \<^verbatim>\<open>Mock response for <METHOD> <path>\<close> followed by a
  line with the arguments.
\<close>

theorem C10_mock_response:
  "service_url cfg = [] \<Longrightarrow>
   createToolHandler cfg parse num marshal client_Do op path method arguments =
     (Inr (ToolResultText (''Mock response for '' @ method @ '' '' @ path @ [CHR 0x0A]
        @ ''Params: '' @ Sprint_v num (JObj arguments))), [])"
  by (simp add: createToolHandler_def)

theorem C10_mock_response_witness:
  "service_url \<lparr>service_url = [], service_authorization = ''Bearer t''\<rparr> = []
   \<and> createToolHandler \<lparr>service_url = [], service_authorization = ''Bearer t''\<rparr>
        plain_Parse (\<lambda>n::nat. ''0'') (\<lambda>v. None) (\<lambda>r. None)
        \<lparr>op_Summary = [], op_Description = [], op_Parameters = [], op_RequestBody = None\<rparr>
        ''/users'' ''GET'' [(''id'', JStr ''7''), (''all'', JBool True)]
      = (Inr (ToolResultText (''Mock response for GET /users'' @ [CHR 0x0A]
           @ ''Params: map[all:true id:7]'')), [])"
  using C10_mock_response [of "\<lparr>service_url = [], service_authorization = ''Bearer t''\<rparr>"
      plain_Parse "\<lambda>n::nat. ''0''" "\<lambda>v. None" "\<lambda>r. None"
      "\<lparr>op_Summary = [], op_Description = [], op_Parameters = [], op_RequestBody = None\<rparr>"
      "''/users''" "''GET''" "[(''id'', JStr ''7''), (''all'', JBool True)]"]
  by simp

lemma createHTTPRequest_body:
  "createHTTPRequest parse marshal method url args op = Inr req \<Longrightarrow>
   request_body marshal method args op = Inr (r_Body req)"
  by (auto simp: createHTTPRequest_def NewRequestWithContext_def split: sum.splits option.splits)

lemma rest_empty_iff:
  "filter (\<lambda>(name, val). \<not> isPathOrQuery op name) args = []
     \<longleftrightarrow> list_all (\<lambda>(name, val). isPathOrQuery op name) args"
  by (induction args) auto

text \<open>
  C7, as stated, at a \<^verbatim>\<open>POST\<close> operation that declares no request body: the tool has no
  \<^verbatim>\<open>body\<close> property, and the request still carries the \<^verbatim>\<open>body\<close> argument.
\<close>

theorem C7_body_without_requestBody_counterexample:
  "hasBody \<lparr>op_Summary = [], op_Description = [], op_Parameters = [],
            op_RequestBody = (None :: nat requestBody option)\<rparr> = False
   \<and> createHTTPRequest plain_Parse (\<lambda>v. None) ''POST'' ''http://h/p'' [(''body'', JStr ''raw'')]
        \<lparr>op_Summary = [], op_Description = [], op_Parameters = [],
         op_RequestBody = (None :: nat requestBody option)\<rparr>
       = Inr \<lparr>r_Method = ''POST'', r_URL = ''http://h/p'', r_Header = [], r_Body = Some ''raw''\<rparr>"
  by (simp add: hasBody_def createHTTPRequest_def request_body_def NewRequestWithContext_def
        plain_Parse_def Cut_def string_eval_defs)

text \<open>
  C7, amended: whether a body is constructed is decided by the method, not by the declared
  request body. A request that is created has no body exactly when the method is none of
  \<^verbatim>\<open>POST\<close>, \<^verbatim>\<open>PUT\<close>, \<^verbatim>\<open>PATCH\<close>, or there is no \<^verbatim>\<open>body\<close> argument and every argument is
  the name of a path or query parameter.
\<close>

theorem C7_body_by_method:
  "createHTTPRequest parse marshal method url args op = Inr req \<Longrightarrow>
   (r_Body req = None) =
     ((method \<noteq> ''POST'' \<and> method \<noteq> ''PUT'' \<and> method \<noteq> ''PATCH'')
      \<or> (map_of args ''body'' = None \<and> list_all (\<lambda>(name, val). isPathOrQuery op name) args))"
proof -
  assume "createHTTPRequest parse marshal method url args op = Inr req"
  then have b: "request_body marshal method args op = Inr (r_Body req)"
    by (rule createHTTPRequest_body)
  show ?thesis
  proof (cases "method = ''POST'' \<or> method = ''PUT'' \<or> method = ''PATCH''")
    case False
    with b show ?thesis by (auto simp: request_body_def)
  next
    case True
    show ?thesis
    proof (cases "map_of args ''body''")
      case (Some bodyArg)
      with True b show ?thesis
        by (auto simp: request_body_def split: json.splits option.splits)
    next
      case None
      with True b show ?thesis
        by (auto simp: request_body_def Let_def rest_empty_iff [symmetric]
              split: option.splits if_splits)
    qed
  qed
qed

theorem C7_body_by_method_witness:
  "createHTTPRequest plain_Parse (\<lambda>v. None) ''DELETE'' ''http://h/p'' [(''body'', JStr ''raw'')]
      \<lparr>op_Summary = [], op_Description = [], op_Parameters = [],
       op_RequestBody = Some \<lparr>rb_Description = [], rb_Required = True,
         rb_Content = [(''application/json'', Some \<lparr>s_Type = ''object'', s_Enum = ([] :: nat json list)\<rparr>)]\<rparr>\<rparr>
     = Inr \<lparr>r_Method = ''DELETE'', r_URL = ''http://h/p'', r_Header = [], r_Body = None\<rparr>
   \<and> (r_Body \<lparr>r_Method = ''DELETE'', r_URL = ''http://h/p'', r_Header = [], r_Body = None\<rparr> = None)"
proof -
  have c: "createHTTPRequest plain_Parse (\<lambda>v. None) ''DELETE'' ''http://h/p'' [(''body'', JStr ''raw'')]
      \<lparr>op_Summary = [], op_Description = [], op_Parameters = [],
       op_RequestBody = Some \<lparr>rb_Description = [], rb_Required = True,
         rb_Content = [(''application/json'', Some \<lparr>s_Type = ''object'', s_Enum = ([] :: nat json list)\<rparr>)]\<rparr>\<rparr>
     = Inr \<lparr>r_Method = ''DELETE'', r_URL = ''http://h/p'', r_Header = [], r_Body = None\<rparr>"
    by (simp add: createHTTPRequest_def request_body_def NewRequestWithContext_def
          plain_Parse_def Cut_def string_eval_defs)
  from C7_body_by_method [OF c] c show ?thesis by simp
qed


lemma rest_claimed:
  "filter (\<lambda>(name, val). \<not> isPathOrQuery op name) args
     = filter (\<lambda>(name, val). name \<notin> set (claimed_names op)) args"
  by (simp add: isPathOrQuery_claimed)

text \<open>
  C8, as stated, at an operation with a request body: under \<^verbatim>\<open>DELETE\<close> a string \<^verbatim>\<open>body\<close>
  argument is not sent, and under \<^verbatim>\<open>POST\<close> with no arguments no body is sent at all, where
  the claim has the JSON encoding of the empty set of entries.
\<close>

theorem C8_no_body_counterexample:
  "hasBody \<lparr>op_Summary = [], op_Description = [], op_Parameters = [],
       op_RequestBody = Some \<lparr>rb_Description = [], rb_Required = True,
         rb_Content = [(''application/json'', Some \<lparr>s_Type = ''object'', s_Enum = ([] :: nat json list)\<rparr>)]\<rparr>\<rparr>
   \<and> request_body (\<lambda>v. Some ''{}'') ''DELETE'' [(''body'', JStr ''raw'')]
       \<lparr>op_Summary = [], op_Description = [], op_Parameters = [],
        op_RequestBody = Some \<lparr>rb_Description = [], rb_Required = True,
         rb_Content = [(''application/json'', Some \<lparr>s_Type = ''object'', s_Enum = ([] :: nat json list)\<rparr>)]\<rparr>\<rparr>
      = Inr None
   \<and> request_body (\<lambda>v. Some ''{}'') ''POST'' []
       \<lparr>op_Summary = [], op_Description = [], op_Parameters = [],
        op_RequestBody = Some \<lparr>rb_Description = [], rb_Required = True,
         rb_Content = [(''application/json'', Some \<lparr>s_Type = ''object'', s_Enum = ([] :: nat json list)\<rparr>)]\<rparr>\<rparr>
      = Inr None"
  by (simp add: hasBody_def request_body_def)

text \<open>
  C8, amended: for the methods \<^verbatim>\<open>POST\<close>, \<^verbatim>\<open>PUT\<close> and \<^verbatim>\<open>PATCH\<close> the body follows the
  three tiers. A string \<^verbatim>\<open>body\<close> argument is the body verbatim; any other \<^verbatim>\<open>body\<close>
  argument is JSON-encoded (an encoding error is returned); without a \<^verbatim>\<open>body\<close> argument the
  body is the JSON encoding of exactly the entries whose keys no path or query parameter
  claims, and there is no body when no such entry exists.
\<close>

theorem C8_body_selection:
  assumes m: "method = ''POST'' \<or> method = ''PUT'' \<or> method = ''PATCH''"
  shows "request_body marshal method args op =
     (case map_of args ''body'' of
        Some (JStr bodyStr) \<Rightarrow> Inr (Some bodyStr)
      | Some bodyArg \<Rightarrow>
          (case marshal bodyArg of None \<Rightarrow> Inl MarshalError | Some b \<Rightarrow> Inr (Some b))
      | None \<Rightarrow>
          (let extra = filter (\<lambda>(name, val). name \<notin> set (claimed_names op)) args
           in if extra = [] then Inr None
              else (case marshal (JObj extra) of
                      None \<Rightarrow> Inl MarshalError
                    | Some b \<Rightarrow> Inr (Some b))))"
  using m
  by (auto simp: request_body_def Let_def rest_claimed split: option.splits json.splits)

theorem C8_body_selection_witness:
  "(''POST'' = ''POST'' \<or> ''POST'' = ''PUT'' \<or> ''POST'' = ''PATCH'')
   \<and> request_body (\<lambda>v. if v = JObj [(''name'', JStr ''x'')] then Some ''{\"name\":\"x\"}'' else None)
        ''POST'' [(''id'', JStr ''7''), (''name'', JStr ''x'')]
        \<lparr>op_Summary = [], op_Description = [],
         op_Parameters = [Some \<lparr>p_Name = ''id'', p_In = ''path'', p_Description = [],
            p_Required = True, p_Schema = (None :: nat schema option)\<rparr>],
         op_RequestBody = None\<rparr>
      = Inr (Some ''{\"name\":\"x\"}'')"
  using C8_body_selection [of "''POST''"
      "\<lambda>v. if v = JObj [(''name'', JStr ''x'')] then Some ''{\"name\":\"x\"}'' else None"
      "[(''id'', JStr ''7''), (''name'', JStr ''x'')]"
      "\<lparr>op_Summary = [], op_Description = [],
         op_Parameters = [Some \<lparr>p_Name = ''id'', p_In = ''path'', p_Description = [],
            p_Required = True, p_Schema = (None :: nat schema option)\<rparr>],
         op_RequestBody = None\<rparr>"]
  by (simp add: claimed_names_def)

section \<open>The query string\<close>

lemma Values_Encode_flat: "Values_Encode v = encode_pairs (flat_values (sort_key fst v))"
  unfolding Values_Encode_def encode_pairs_def flat_values_def
  by (simp add: map_concat comp_def case_prod_unfold)

lemma fold_add_query_param:
  "fold (add_query_param num args) parameters q
     = fold (\<lambda>(k, x) q. Values_Add q k x) (present_query_pairs num args parameters) q"
  by (induction parameters arbitrary: q)
     (auto simp: present_query_pairs_def add_query_param_def split: option.splits)

lemma distinct_Values_Add: "distinct (map fst v) \<Longrightarrow> distinct (map fst (Values_Add v k x))"
  by (simp add: Values_Add_def distinct_update)

lemma values_of_Values_Add:
  "values_of (Values_Add v k x) k' = values_of v k' @ (if k' = k then [x] else [])"
  by (simp add: Values_Add_def values_of_def update_conv')

lemma distinct_fold_Values_Add:
  "distinct (map fst v) \<Longrightarrow> distinct (map fst (fold (\<lambda>(k, x) q. Values_Add q k x) ps v))"
  by (induction ps arbitrary: v) (auto simp: distinct_Values_Add)

lemma values_of_fold:
  "values_of (fold (\<lambda>(k, x) q. Values_Add q k x) ps v) k'
     = values_of v k' @ map snd (filter (\<lambda>p. fst p = k') ps)"
  by (induction ps arbitrary: v) (auto simp: values_of_Values_Add)

lemma filter_flat_distinct:
  "distinct (map fst v) \<Longrightarrow>
   filter (\<lambda>p. fst p = k) (flat_values v) = map (Pair k) (values_of v k)"
proof (induction v)
  case Nil
  then show ?case by (simp add: flat_values_def values_of_def)
next
  case (Cons e v)
  obtain k' vs where e: "e = (k', vs)" by (cases e)
  show ?case
  proof (cases "k' = k")
    case True
    with Cons.prems e have "k \<notin> fst ` set v" by auto
    then have "map_of v k = None" by (simp add: map_of_eq_None_iff)
    with Cons True e show ?thesis
      by (auto simp: flat_values_def values_of_def filter_empty_conv)
  next
    case False
    with Cons e show ?thesis
      by (auto simp: flat_values_def values_of_def filter_empty_conv)
  qed
qed

lemma mset_flat_Values_Add:
  "mset (flat_values (Values_Add v k x)) = mset (flat_values v) + {#(k, x)#}"
proof (induction v)
  case Nil
  then show ?case by (simp add: flat_values_def Values_Add_def)
next
  case (Cons e v)
  then show ?case
    by (cases e) (auto simp: flat_values_def Values_Add_def)
qed

lemma mset_flat_fold:
  "mset (flat_values (fold (\<lambda>(k, x) q. Values_Add q k x) ps v)) = mset (flat_values v) + mset ps"
  by (induction ps arbitrary: v) (auto simp: mset_flat_Values_Add)

lemma mset_flat_values:
  "mset (flat_values v) = sum_mset (image_mset (\<lambda>(k, vs). mset (map (Pair k) vs)) (mset v))"
  by (induction v) (auto simp: flat_values_def)

lemma mset_flat_cong: "mset v = mset w \<Longrightarrow> mset (flat_values v) = mset (flat_values w)"
  by (simp add: mset_flat_values)

lemma sorted_flat: "sorted (map fst v) \<Longrightarrow> sorted (map fst (flat_values v))"
proof (induction v)
  case Nil
  then show ?case by (simp add: flat_values_def)
next
  case (Cons e v)
  obtain k vs where e: "e = (k, vs)" by (cases e)
  have m: "map fst (map (Pair k) vs) = replicate (length vs) k"
    by (induction vs) auto
  have f: "flat_values (e # v) = map (Pair k) vs @ flat_values v"
    by (simp add: flat_values_def e)
  have s: "set (map fst (flat_values v)) \<subseteq> set (map fst v)"
    by (force simp: flat_values_def)
  from Cons.prems e have le: "\<forall>y \<in> set (map fst v). k \<le> y" by auto
  from Cons have sv: "sorted (map fst (flat_values v))" by simp
  show ?case
    unfolding f map_append m sorted_append
    using le s sv by (fastforce simp: sorted_replicate)
qed

lemma filter_flat_sorted:
  "filter (\<lambda>p. fst p = k) (flat_values (sort_key fst v)) = filter (\<lambda>p. fst p = k) (flat_values v)"
proof -
  have a: "\<And>w. filter (\<lambda>p. fst p = k) (flat_values w)
             = flat_values (filter (\<lambda>e. fst e = k) w)"
    subgoal for w
      by (induction w) (auto simp: flat_values_def filter_empty_conv)
    done
  show ?thesis by (simp add: a sort_key_stable)
qed

lemma flat_sorted_fold:
  assumes "distinct (map fst v)"
  shows "flat_values (sort_key fst (fold (\<lambda>(k, x) q. Values_Add q k x) ps v))
           = sort_key fst (flat_values v @ ps)"
proof (rule properties_for_sort_key [symmetric])
  let ?q = "fold (\<lambda>(k, x) q. Values_Add q k x) ps v"
  have "mset (flat_values (sort_key fst ?q)) = mset (flat_values ?q)"
    by (rule mset_flat_cong) simp
  then show "mset (flat_values (sort_key fst ?q)) = mset (flat_values v @ ps)"
    by (simp add: mset_flat_fold)
  show "sorted (map fst (flat_values (sort_key fst ?q)))"
    by (rule sorted_flat) simp
  fix e
  have d: "distinct (map fst ?q)" using assms by (rule distinct_fold_Values_Add)
  have "filter (\<lambda>p. fst p = fst e) (flat_values (sort_key fst ?q))
          = map (Pair (fst e)) (values_of ?q (fst e))"
    by (simp add: filter_flat_sorted filter_flat_distinct [OF d])
  also have "\<dots> = filter (\<lambda>p. fst p = fst e) (flat_values v)
                  @ map (Pair (fst e)) (map snd (filter (\<lambda>p. fst p = fst e) ps))"
    by (simp add: values_of_fold filter_flat_distinct [OF assms])
  also have "map (Pair (fst e)) (map snd (filter (\<lambda>p. fst p = fst e) ps))
               = filter (\<lambda>p. fst p = fst e) ps"
    by (induction ps) auto
  finally show "filter (\<lambda>x. fst e = fst x) (flat_values (sort_key fst ?q))
                  = filter (\<lambda>x. fst e = fst x) (flat_values v @ ps)"
    by (simp add: eq_commute)
qed

lemma distinct_parse_piece: "distinct (map fst m) \<Longrightarrow> distinct (map fst (parse_piece piece m))"
  by (auto simp: parse_piece_def distinct_Values_Add split: option.splits)

lemma distinct_ParseQuery: "distinct (map fst (ParseQuery query))"
proof -
  have "\<And>m. distinct (map fst m) \<Longrightarrow> distinct (map fst (fold parse_piece ps m))" for ps
    by (induction ps) (auto simp: distinct_parse_piece)
  then show ?thesis by (simp add: ParseQuery_def)
qed


lemmas url_eval_defs =
  buildURL_def replace_path_param_def add_query_param_def join_base_path_def plain_Parse_def
  Cut_def ParseQuery_def parse_piece_def Values_Add_def Values_Encode_def QueryEscape_def
  escape_byte_def unreserved_def url_String_def hex_digits_def suffix_to_prefix Let_def

text \<open>
  C9, as stated, at two query parameters declared as \<^verbatim>\<open>page\<close>, \<^verbatim>\<open>limit\<close>: the query
  string has \<^verbatim>\<open>limit\<close> before \<^verbatim>\<open>page\<close>, not the order of declaration.
\<close>

theorem C9_declaration_order_counterexample:
  "buildURL plain_Parse (\<lambda>n::nat. ''0'') ''http://h'' ''/items''
      [(''page'', JStr ''2''), (''limit'', JStr ''10'')]
      [Some \<lparr>p_Name = ''page'', p_In = ''query'', p_Description = [], p_Required = False,
              p_Schema = None\<rparr>,
       Some \<lparr>p_Name = ''limit'', p_In = ''query'', p_Description = [], p_Required = False,
              p_Schema = None\<rparr>]
     = ''http://h/items?limit=10&page=2''"
  by (simp add: url_eval_defs string_eval_defs)

text \<open>
  C9, amended: when the joined URL parses, the query string of the result consists of the
  pairs already in the URL's query and the query parameters present in the arguments, each
  percent-encoded as \<^verbatim>\<open>name=value\<close> and joined by \<^verbatim>\<open>&\<close>, in ascending order of the
  names; pairs with the same name keep their order (the URL's own first, then by
  declaration).
\<close>

theorem C9_query_sorted_by_name:
  assumes "parse (fst (join_base_path baseURL (fold (replace_path_param num args) parameters path))
             @ snd (join_base_path baseURL (fold (replace_path_param num args) parameters path)))
           = Some u"
  shows "buildURL parse num baseURL path args parameters
     = url_String (u\<lparr>RawQuery := encode_pairs (sort_key fst
          (flat_values (ParseQuery (RawQuery u)) @ present_query_pairs num args parameters))\<rparr>)"
proof -
  have "Values_Encode (fold (add_query_param num args) parameters (ParseQuery (RawQuery u)))
      = encode_pairs (sort_key fst
          (flat_values (ParseQuery (RawQuery u)) @ present_query_pairs num args parameters))"
    by (simp only: Values_Encode_flat fold_add_query_param
          flat_sorted_fold [OF distinct_ParseQuery])
  with assms show ?thesis
    by (simp add: buildURL_def Let_def case_prod_unfold)
qed


theorem C9_query_sorted_by_name_witness:
  "plain_Parse
     (fst (join_base_path ''http://h/api/''
        (fold (replace_path_param (\<lambda>n::nat. ''0'')
           [(''id'', JStr ''42''), (''sort'', JStr ''new est''), (''page'', JStr ''2'')])
           [Some \<lparr>p_Name = ''id'', p_In = ''path'', p_Description = [], p_Required = True,
                   p_Schema = None\<rparr>,
            Some \<lparr>p_Name = ''sort'', p_In = ''query'', p_Description = [], p_Required = False,
                   p_Schema = None\<rparr>,
            Some \<lparr>p_Name = ''page'', p_In = ''query'', p_Description = [], p_Required = False,
                   p_Schema = None\<rparr>]
           ''/users/{id}/posts''))
      @ snd (join_base_path ''http://h/api/''
        (fold (replace_path_param (\<lambda>n::nat. ''0'')
           [(''id'', JStr ''42''), (''sort'', JStr ''new est''), (''page'', JStr ''2'')])
           [Some \<lparr>p_Name = ''id'', p_In = ''path'', p_Description = [], p_Required = True,
                   p_Schema = None\<rparr>,
            Some \<lparr>p_Name = ''sort'', p_In = ''query'', p_Description = [], p_Required = False,
                   p_Schema = None\<rparr>,
            Some \<lparr>p_Name = ''page'', p_In = ''query'', p_Description = [], p_Required = False,
                   p_Schema = None\<rparr>]
           ''/users/{id}/posts'')))
     = Some \<lparr>Head = ''http://h/api/users/42/posts'', ForceQuery = False, RawQuery = [], Tail = []\<rparr>
   \<and> buildURL plain_Parse (\<lambda>n::nat. ''0'') ''http://h/api/'' ''/users/{id}/posts''
        [(''id'', JStr ''42''), (''sort'', JStr ''new est''), (''page'', JStr ''2'')]
        [Some \<lparr>p_Name = ''id'', p_In = ''path'', p_Description = [], p_Required = True,
                p_Schema = None\<rparr>,
         Some \<lparr>p_Name = ''sort'', p_In = ''query'', p_Description = [], p_Required = False,
                p_Schema = None\<rparr>,
         Some \<lparr>p_Name = ''page'', p_In = ''query'', p_Description = [], p_Required = False,
                p_Schema = None\<rparr>]
      = ''http://h/api/users/42/posts?page=2&sort=new+est''"
proof -
  have h: "plain_Parse
     (fst (join_base_path ''http://h/api/''
        (fold (replace_path_param (\<lambda>n::nat. ''0'')
           [(''id'', JStr ''42''), (''sort'', JStr ''new est''), (''page'', JStr ''2'')])
           [Some \<lparr>p_Name = ''id'', p_In = ''path'', p_Description = [], p_Required = True,
                   p_Schema = None\<rparr>,
            Some \<lparr>p_Name = ''sort'', p_In = ''query'', p_Description = [], p_Required = False,
                   p_Schema = None\<rparr>,
            Some \<lparr>p_Name = ''page'', p_In = ''query'', p_Description = [], p_Required = False,
                   p_Schema = None\<rparr>]
           ''/users/{id}/posts''))
      @ snd (join_base_path ''http://h/api/''
        (fold (replace_path_param (\<lambda>n::nat. ''0'')
           [(''id'', JStr ''42''), (''sort'', JStr ''new est''), (''page'', JStr ''2'')])
           [Some \<lparr>p_Name = ''id'', p_In = ''path'', p_Description = [], p_Required = True,
                   p_Schema = None\<rparr>,
            Some \<lparr>p_Name = ''sort'', p_In = ''query'', p_Description = [], p_Required = False,
                   p_Schema = None\<rparr>,
            Some \<lparr>p_Name = ''page'', p_In = ''query'', p_Description = [], p_Required = False,
                   p_Schema = None\<rparr>]
           ''/users/{id}/posts'')))
     = Some \<lparr>Head = ''http://h/api/users/42/posts'', ForceQuery = False, RawQuery = [], Tail = []\<rparr>"
    by (simp add: url_eval_defs string_eval_defs)
  have e: "url_String (\<lparr>Head = ''http://h/api/users/42/posts'', ForceQuery = False, RawQuery = [],
              Tail = []\<rparr>\<lparr>RawQuery := encode_pairs (sort_key fst
          (flat_values (ParseQuery (RawQuery \<lparr>Head = ''http://h/api/users/42/posts'',
              ForceQuery = False, RawQuery = [], Tail = []\<rparr>))
           @ present_query_pairs (\<lambda>n::nat. ''0'')
               [(''id'', JStr ''42''), (''sort'', JStr ''new est''), (''page'', JStr ''2'')]
               [Some \<lparr>p_Name = ''id'', p_In = ''path'', p_Description = [], p_Required = True,
                       p_Schema = None\<rparr>,
                Some \<lparr>p_Name = ''sort'', p_In = ''query'', p_Description = [], p_Required = False,
                       p_Schema = None\<rparr>,
                Some \<lparr>p_Name = ''page'', p_In = ''query'', p_Description = [], p_Required = False,
                       p_Schema = None\<rparr>]))\<rparr>)
        = ''http://h/api/users/42/posts?page=2&sort=new+est''"
    by (simp add: url_eval_defs string_eval_defs encode_pairs_def flat_values_def
          present_query_pairs_def)
  from h C9_query_sorted_by_name [where parse = plain_Parse, OF h] e show ?thesis by simp
qed

section \<open>The order of the tools\<close>






section \<open>Properties of the normaliser\<close>

lemma all_properties_iff:
  "all_properties schema P \<longleftrightarrow>
     (\<forall>properties name propObj. map_of schema ''properties'' = Some (JObj properties)
        \<longrightarrow> (name, JObj propObj) \<in> set properties \<longrightarrow> P propObj)"
  by (auto simp: all_properties_def list_all_iff split: option.splits json.splits)

lemma map_of_update_properties_other:
  "k \<noteq> ''properties'' \<Longrightarrow> map_of (update_properties schema f) k = map_of schema k"
  by (auto simp: update_properties_def update_conv' split: option.splits json.splits)

lemma map_of_update_properties:
  "map_of schema ''properties'' = Some (JObj properties) \<Longrightarrow>
   map_of (update_properties schema f) ''properties''
     = Some (JObj (map (\<lambda>(name, propValue).
          (name, case propValue of JObj propObj \<Rightarrow> JObj (f propObj) | _ \<Rightarrow> propValue)) properties))"
  by (simp add: update_properties_def update_conv')

lemma update_properties_unchanged:
  "(\<And>x. map_of schema ''properties'' \<noteq> Some (JObj x)) \<Longrightarrow> update_properties schema f = schema"
  by (auto simp: update_properties_def split: option.splits json.splits)

lemma update_properties_id:
  assumes "\<And>properties name propObj.
     map_of schema ''properties'' = Some (JObj properties) \<Longrightarrow>
     (name, JObj propObj) \<in> set properties \<Longrightarrow> f propObj = propObj"
  shows "update_properties schema f = schema"
proof (cases "\<exists>properties. map_of schema ''properties'' = Some (JObj properties)")
  case False
  then show ?thesis by (auto intro: update_properties_unchanged)
next
  case True
  then obtain properties where p: "map_of schema ''properties'' = Some (JObj properties)" by blast
  have "map (\<lambda>(name, propValue).
          (name, case propValue of JObj propObj \<Rightarrow> JObj (f propObj) | _ \<Rightarrow> propValue)) properties
        = properties"
    using assms [OF p] by (intro map_idI) (auto split: json.splits)
  with p show ?thesis
    by (simp add: update_properties_def update_triv)
qed

lemma fold_scan_pair:
  "fold scan_alternative [a, b] (None, False)
     = ((if is_typed_alternative b then (case b of JObj obj \<Rightarrow> Some obj | _ \<Rightarrow> None)
         else if is_typed_alternative a then (case a of JObj obj \<Rightarrow> Some obj | _ \<Rightarrow> None)
         else None),
        is_null_alternative a \<or> is_null_alternative b)"
  by (auto simp: scan_alternative_def is_typed_alternative_def is_null_alternative_def
        split: json.splits option.splits)


lemma length_two: "length xs = 2 \<longleftrightarrow> (\<exists>a b. xs = [a, b])"
proof (cases xs)
  case Nil
  then show ?thesis by simp
next
  case (Cons a ys)
  then show ?thesis by (cases ys) auto
qed

lemma null_union_iff:
  "null_union schema \<longleftrightarrow>
     (\<exists>a b. map_of schema ''anyOf'' = Some (JArr [a, b])
        \<and> (is_null_alternative a \<or> is_null_alternative b)
        \<and> (is_typed_alternative a \<or> is_typed_alternative b))"
  unfolding null_union_def
  by (simp split: option.split json.split list.split)

lemma is_typed_alternative_obj: "is_typed_alternative v \<Longrightarrow> \<exists>obj. v = JObj obj"
  by (cases v) (simp_all add: is_typed_alternative_def)

lemma main_alternative_pair:
  "map_of schema ''anyOf'' = Some (JArr [a, b]) \<Longrightarrow>
   main_alternative schema
     = (if is_typed_alternative b then (case b of JObj obj \<Rightarrow> Some obj | _ \<Rightarrow> None)
        else if is_typed_alternative a then (case a of JObj obj \<Rightarrow> Some obj | _ \<Rightarrow> None)
        else None)"
  by (simp add: main_alternative_def)

lemma main_alternative_Some: "null_union schema \<Longrightarrow> \<exists>mainType. main_alternative schema = Some mainType"
proof -
  assume "null_union schema"
  then obtain a b where ab: "map_of schema ''anyOf'' = Some (JArr [a, b])"
    and t: "is_typed_alternative a \<or> is_typed_alternative b"
    unfolding null_union_iff by blast
  show ?thesis
  proof (cases "is_typed_alternative b")
    case True
    then obtain obj where "b = JObj obj" using is_typed_alternative_obj by blast
    with True ab show ?thesis by (simp add: main_alternative_pair)
  next
    case False
    with t have ta: "is_typed_alternative a" by simp
    then obtain obj where "a = JObj obj" using is_typed_alternative_obj by blast
    with False ta ab show ?thesis by (simp add: main_alternative_pair)
  qed
qed

lemma fixAnyOf_pair:
  "map_of schema ''anyOf'' = Some (JArr [a, b]) \<Longrightarrow>
   fixAnyOf schema
     = (case main_alternative schema of
          Some mainType \<Rightarrow>
            (if is_null_alternative a \<or> is_null_alternative b
             then AList.delete ''anyOf''
                    (AList.update ''nullable'' (JBool True) (AList.merge schema mainType))
             else schema)
        | None \<Rightarrow> schema)"
proof -
  assume ab: "map_of schema ''anyOf'' = Some (JArr [a, b])"
  have l: "length [a, b] = 2" by simp
  show ?thesis
    unfolding fixAnyOf_def ab option.case json.case l if_True fold_scan_pair
      main_alternative_pair [OF ab]
    by (cases "is_null_alternative a \<or> is_null_alternative b")
       (simp_all split: option.split)
qed

lemma fixAnyOf_not_pair:
  "(\<And>a b. map_of schema ''anyOf'' \<noteq> Some (JArr [a, b])) \<Longrightarrow> fixAnyOf schema = schema"
proof (cases "map_of schema ''anyOf''")
  case None
  then show ?thesis by (simp add: fixAnyOf_def)
next
  case (Some v)
  assume n: "\<And>a b. map_of schema ''anyOf'' \<noteq> Some (JArr [a, b])"
  show ?thesis
  proof (cases v)
    case (JArr anyOf)
    with Some n have "length anyOf \<noteq> 2" by (auto simp: length_two)
    with Some JArr show ?thesis by (simp add: fixAnyOf_def)
  qed (use Some in \<open>simp_all add: fixAnyOf_def\<close>)
qed

lemma fixAnyOf_null_union:
  assumes "null_union schema" and "main_alternative schema = Some mainType"
  shows "fixAnyOf schema
     = AList.delete ''anyOf'' (AList.update ''nullable'' (JBool True) (AList.merge schema mainType))"
proof -
  from assms(1) obtain a b where ab: "map_of schema ''anyOf'' = Some (JArr [a, b])"
    and n: "is_null_alternative a \<or> is_null_alternative b"
    unfolding null_union_iff by blast
  from n assms(2) show ?thesis
    by (simp add: fixAnyOf_pair [OF ab])
qed

lemma fixAnyOf_other: "\<not> null_union schema \<Longrightarrow> fixAnyOf schema = schema"
proof -
  assume nu: "\<not> null_union schema"
  show ?thesis
  proof (cases "\<exists>a b. map_of schema ''anyOf'' = Some (JArr [a, b])")
    case False
    then show ?thesis by (intro fixAnyOf_not_pair) blast
  next
    case True
    then obtain a b where ab: "map_of schema ''anyOf'' = Some (JArr [a, b])" by blast
    show ?thesis
    proof (cases "is_null_alternative a \<or> is_null_alternative b")
      case False
      then show ?thesis by (simp add: fixAnyOf_pair [OF ab] split: option.split)
    next
      case True
      with nu ab have "\<not> is_typed_alternative a" "\<not> is_typed_alternative b"
        unfolding null_union_iff by auto
      then have "main_alternative schema = None"
        by (simp add: main_alternative_pair [OF ab])
      then show ?thesis by (simp add: fixAnyOf_pair [OF ab])
    qed
  qed
qed

lemma fixAnyOf_no_anyOf: "null_union schema \<Longrightarrow> map_of (fixAnyOf schema) ''anyOf'' = None"
proof -
  assume nu: "null_union schema"
  then obtain mainType where "main_alternative schema = Some mainType"
    using main_alternative_Some by blast
  with nu show ?thesis
    by (simp add: fixAnyOf_null_union delete_conv')
qed

lemma null_union_cong: "map_of s ''anyOf'' = map_of t ''anyOf'' \<Longrightarrow> null_union s = null_union t"
  by (simp add: null_union_def)

lemma not_null_union_fixAnyOf: "\<not> null_union (fixAnyOf schema)"
proof (cases "null_union schema")
  case True
  then have "map_of (fixAnyOf schema) ''anyOf'' = None" by (rule fixAnyOf_no_anyOf)
  then show ?thesis by (simp add: null_union_def)
next
  case False
  then show ?thesis by (simp add: fixAnyOf_other)
qed

lemma not_null_union_fix_property: "\<not> null_union (fix_property propObj)"
proof (cases "map_of propObj ''anyOf''")
  case None
  then show ?thesis by (simp add: fix_property_def null_union_def)
next
  case (Some a)
  then show ?thesis by (simp add: fix_property_def not_null_union_fixAnyOf)
qed

lemma fix_property_clean: "\<not> null_union propObj \<Longrightarrow> fix_property propObj = propObj"
  by (simp add: fix_property_def fixAnyOf_other)

lemma fixNullTypes_unfold:
  "fixNullTypes schema = update_properties schema (\<lambda>propObj. fixNullTypes (fix_property propObj))"
  by (subst fixNullTypes.simps) (simp add: fix_property_def)

lemma map_of_fixNullTypes_other:
  "k \<noteq> ''properties'' \<Longrightarrow> map_of (fixNullTypes schema) k = map_of schema k"
  by (subst fixNullTypes.simps) (simp add: map_of_update_properties_other)

lemma null_union_fixNullTypes: "null_union (fixNullTypes schema) = null_union schema"
  by (rule null_union_cong) (simp add: map_of_fixNullTypes_other)

lemma clean_props_fixNullTypes: "clean_props (fixNullTypes schema)"
proof (induction schema rule: fixNullTypes.induct)
  case (1 schema)
  show ?case
  proof (subst clean_props.simps, unfold all_properties_iff, intro allI impI)
    fix properties name propObj
    assume p: "map_of (fixNullTypes schema) ''properties'' = Some (JObj properties)"
      and e: "(name, JObj propObj) \<in> set properties"
    from p obtain ps0 where p0: "map_of schema ''properties'' = Some (JObj ps0)"
      by (subst (asm) fixNullTypes_unfold)
         (auto simp: update_properties_def update_conv' split: option.splits json.splits)
    from p p0 have "properties = map (\<lambda>(name, propValue).
          (name, case propValue of JObj propObj \<Rightarrow> JObj (fixNullTypes (fix_property propObj))
                 | _ \<Rightarrow> propValue)) ps0"
      by (subst (asm) fixNullTypes_unfold) (simp add: map_of_update_properties)
    with e obtain po0 where e0: "(name, JObj po0) \<in> set ps0"
      and po: "propObj = fixNullTypes (fix_property po0)"
      by (auto split: json.splits)
    from "1.IH" [OF p0 e0] have "clean_props propObj"
      by (simp add: po fix_property_def)
    moreover have "\<not> null_union propObj"
      by (simp add: po null_union_fixNullTypes not_null_union_fix_property)
    ultimately show "\<not> null_union propObj \<and> clean_props propObj" by simp
  qed
qed

lemma fixNullTypes_clean: "clean_props schema \<Longrightarrow> fixNullTypes schema = schema"
proof (induction schema rule: fixNullTypes.induct)
  case (1 schema)
  show ?case
  proof (subst fixNullTypes_unfold, rule update_properties_id)
    fix properties name propObj
    assume p: "map_of schema ''properties'' = Some (JObj properties)"
      and e: "(name, JObj propObj) \<in> set properties"
    from "1.prems" p e have c: "\<not> null_union propObj \<and> clean_props propObj"
      by (subst (asm) clean_props.simps) (auto simp: all_properties_iff)
    then have f: "fix_property propObj = propObj" by (simp add: fix_property_clean)
    from "1.IH" [OF p e] c f show "fixNullTypes (fix_property propObj) = propObj"
      by (simp add: fix_property_def)
  qed
qed


lemma delete_fields_id:
  "map_of m ''error_messages'' = None \<Longrightarrow> map_of m ''hide_error_details'' = None \<Longrightarrow>
   delete_fields m = m"
  by (simp add: delete_fields_def nonStandardFields_def)

lemma map_of_remove_other:
  "k \<noteq> ''properties'' \<Longrightarrow> k \<noteq> ''items'' \<Longrightarrow>
   map_of (removeNonStandardFields schema) k = map_of (delete_fields schema) k"
  by (subst removeNonStandardFields.simps)
     (simp add: update_conv' map_of_update_properties_other split: option.split json.split)

lemma map_of_remove_properties:
  "map_of (removeNonStandardFields schema) ''properties''
     = map_of (update_properties (delete_fields schema) removeNonStandardFields) ''properties''"
  by (subst removeNonStandardFields.simps)
     (simp add: update_conv' split: option.split json.split)

lemma map_of_remove_items:
  "map_of (removeNonStandardFields schema) ''items''
     = (case map_of (delete_fields schema) ''items'' of
          Some (JObj items) \<Rightarrow> Some (JObj (removeNonStandardFields items))
        | other \<Rightarrow> other)"
  by (subst removeNonStandardFields.simps)
     (simp add: update_conv' map_of_update_properties_other split: option.split json.split)

lemma null_union_remove: "null_union (removeNonStandardFields schema) = null_union schema"
  by (rule null_union_cong)
     (simp add: map_of_remove_other map_of_delete_fields nonStandardFields_def)

lemma remove_properties_cases:
  assumes "map_of (removeNonStandardFields schema) ''properties'' = Some (JObj properties)"
    and "(name, JObj propObj) \<in> set properties"
  obtains ps0 po0 where "map_of schema ''properties'' = Some (JObj ps0)"
    and "(name, JObj po0) \<in> set ps0" and "propObj = removeNonStandardFields po0"
proof -
  from assms(1) obtain ps0 where p0: "map_of (delete_fields schema) ''properties'' = Some (JObj ps0)"
    unfolding map_of_remove_properties
    by (auto simp: update_properties_def update_conv' split: option.splits json.splits)
  with assms(1) have "properties = map (\<lambda>(name, propValue).
          (name, case propValue of JObj propObj \<Rightarrow> JObj (removeNonStandardFields propObj)
                 | _ \<Rightarrow> propValue)) ps0"
    unfolding map_of_remove_properties by (simp add: map_of_update_properties)
  with assms(2) obtain po0 where "(name, JObj po0) \<in> set ps0"
    and "propObj = removeNonStandardFields po0"
    by (auto split: json.splits)
  moreover from p0 have "map_of schema ''properties'' = Some (JObj ps0)"
    by (rule delete_fields_Some)
  ultimately show ?thesis by (rule that [rotated])
qed

lemma clean_props_remove: "clean_props schema \<Longrightarrow> clean_props (removeNonStandardFields schema)"
proof (induction schema rule: measure_induct_rule [of osize])
  case (less schema)
  show ?case
  proof (subst clean_props.simps, unfold all_properties_iff, intro allI impI)
    fix properties name propObj
    assume p: "map_of (removeNonStandardFields schema) ''properties'' = Some (JObj properties)"
      and e: "(name, JObj propObj) \<in> set properties"
    from p e obtain ps0 po0 where p0: "map_of schema ''properties'' = Some (JObj ps0)"
      and e0: "(name, JObj po0) \<in> set ps0" and po: "propObj = removeNonStandardFields po0"
      by (rule remove_properties_cases)
    from less.prems p0 e0 have c: "\<not> null_union po0 \<and> clean_props po0"
      by (subst (asm) clean_props.simps) (auto simp: all_properties_iff)
    from p0 e0 have "osize po0 < osize schema" by (rule properties_smaller)
    from less.IH [OF this] c have "clean_props propObj" by (simp add: po)
    with c show "\<not> null_union propObj \<and> clean_props propObj"
      by (simp add: po null_union_remove)
  qed
qed

lemma remove_idem: "removeNonStandardFields (removeNonStandardFields schema) = removeNonStandardFields schema"
proof (induction schema rule: measure_induct_rule [of osize])
  case (less schema)
  let ?r = "removeNonStandardFields schema"
  have d: "delete_fields ?r = ?r"
    by (rule delete_fields_id)
       (simp_all add: map_of_remove_other map_of_delete_fields nonStandardFields_def)
  have u: "update_properties ?r removeNonStandardFields = ?r"
  proof (rule update_properties_id)
    fix properties name propObj
    assume p: "map_of ?r ''properties'' = Some (JObj properties)"
      and e: "(name, JObj propObj) \<in> set properties"
    from p e obtain ps0 po0 where p0: "map_of schema ''properties'' = Some (JObj ps0)"
      and e0: "(name, JObj po0) \<in> set ps0" and po: "propObj = removeNonStandardFields po0"
      by (rule remove_properties_cases)
    from p0 e0 have "osize po0 < osize schema" by (rule properties_smaller)
    from less.IH [OF this] show "removeNonStandardFields propObj = propObj" by (simp add: po)
  qed
  show ?case
  proof (cases "\<exists>items. map_of ?r ''items'' = Some (JObj items)")
    case False
    then show ?thesis
      by (subst removeNonStandardFields.simps)
         (auto simp: d u split: option.split json.split)
  next
    case True
    then obtain items where i: "map_of ?r ''items'' = Some (JObj items)" by blast
    then obtain it0 where i0: "map_of (delete_fields schema) ''items'' = Some (JObj it0)"
      and it: "items = removeNonStandardFields it0"
      unfolding map_of_remove_items by (auto split: option.splits json.splits)
    from i0 have "map_of schema ''items'' = Some (JObj it0)" by (rule delete_fields_Some)
    then have "osize it0 < osize schema" by (rule items_smaller)
    from less.IH [OF this] have "removeNonStandardFields items = items" by (simp add: it)
    with i show ?thesis
      by (subst removeNonStandardFields.simps) (simp add: d u update_triv)
  qed
qed


lemma fix_schema_value_idem: "fix_schema_value (fix_schema_value v) = fix_schema_value v"
proof (cases v)
  case (JObj schema)
  have "clean_props (removeNonStandardFields (fixNullTypes schema))"
    by (intro clean_props_remove clean_props_fixNullTypes)
  then show ?thesis
    by (simp add: JObj fix_schema_value_def fixNullTypes_clean remove_idem)
qed (simp_all add: fix_schema_value_def)

lemma fixAnyOf_idem: "fixAnyOf (fixAnyOf schema) = fixAnyOf schema"
  by (rule fixAnyOf_other) (rule not_null_union_fixAnyOf)

lemma fix_param_idem: "fix_param (fix_param v) = fix_param v"
proof (cases v)
  case (JObj param)
  then show ?thesis
    by (auto simp: fix_param_def update_conv' fixAnyOf_idem split: option.split json.split)
qed (simp_all add: fix_param_def)

lemma fix_method_idem: "fix_method (fix_method v) = fix_method v"
proof (cases v)
  case (JObj m)
  then show ?thesis
    by (auto simp: fix_method_def update_conv' fix_param_idem comp_def
          split: option.split json.split)
qed (simp_all add: fix_method_def)

lemma fix_path_idem: "fix_path (fix_path v) = fix_path v"
proof (cases v)
  case (JObj path)
  then show ?thesis
    by (simp add: fix_path_def comp_def case_prod_unfold fix_method_idem)
qed (simp_all add: fix_path_def)

lemma map_of_fix_version_other: "k \<noteq> ''openapi'' \<Longrightarrow> map_of (fix_version spec) k = map_of spec k"
  by (simp add: fix_version_def update_conv' split: option.split json.split)

lemma map_of_fix_components_other:
  "k \<noteq> ''components'' \<Longrightarrow> map_of (fix_components spec) k = map_of spec k"
  by (simp add: fix_components_def update_conv' split: option.split json.split)

lemma map_of_fix_paths_other: "k \<noteq> ''paths'' \<Longrightarrow> map_of (fix_paths spec) k = map_of spec k"
  by (simp add: fix_paths_def update_conv' split: option.split json.split)

lemma fix_version_fixed:
  "map_of x ''openapi'' = map_of (fix_version y) ''openapi'' \<Longrightarrow> fix_version x = x"
  by (auto simp: fix_version_def update_conv' HasPrefix_def split: option.splits json.splits if_splits)

lemma fix_components_fixed:
  assumes "map_of x ''components'' = map_of (fix_components y) ''components''"
  shows "fix_components x = x"
proof (cases "\<exists>components schemas. map_of y ''components'' = Some (JObj components)
                \<and> map_of components ''schemas'' = Some (JObj schemas)")
  case False
  then have "fix_components y = y"
    by (auto simp: fix_components_def split: option.split json.split)
  with assms False show ?thesis
    by (auto simp: fix_components_def split: option.split json.split)
next
  case True
  then obtain components schemas where c: "map_of y ''components'' = Some (JObj components)"
    and s: "map_of components ''schemas'' = Some (JObj schemas)" by blast
  let ?ss = "map (\<lambda>(name, schemaValue). (name, fix_schema_value schemaValue)) schemas"
  let ?cs = "AList.update ''schemas'' (JObj ?ss) components"
  from c s assms have x: "map_of x ''components'' = Some (JObj ?cs)"
    by (simp add: fix_components_def update_conv')
  have s': "map_of ?cs ''schemas'' = Some (JObj ?ss)" by (simp add: update_conv')
  have i: "map (\<lambda>(name, schemaValue). (name, fix_schema_value schemaValue)) ?ss = ?ss"
    by (simp add: comp_def case_prod_unfold fix_schema_value_idem)
  show ?thesis
    unfolding fix_components_def x s' option.case json.case i
    by (simp add: update_triv [OF x])
qed

lemma fix_paths_fixed:
  assumes "map_of x ''paths'' = map_of (fix_paths y) ''paths''"
  shows "fix_paths x = x"
proof (cases "\<exists>paths. map_of y ''paths'' = Some (JObj paths)")
  case False
  then have "fix_paths y = y"
    by (auto simp: fix_paths_def split: option.split json.split)
  with assms False show ?thesis
    by (auto simp: fix_paths_def split: option.split json.split)
next
  case True
  then obtain paths where p: "map_of y ''paths'' = Some (JObj paths)" by blast
  let ?ps = "map (\<lambda>(key, pathValue). (key, fix_path pathValue)) paths"
  from p assms have x: "map_of x ''paths'' = Some (JObj ?ps)"
    by (simp add: fix_paths_def update_conv')
  have i: "map (\<lambda>(key, pathValue). (key, fix_path pathValue)) ?ps = ?ps"
    by (simp add: comp_def case_prod_unfold fix_path_idem)
  show ?thesis
    unfolding fix_paths_def x option.case json.case i
    by (rule update_triv [OF x])
qed

lemma preprocess_tree_idem: "preprocess_tree (preprocess_tree spec) = preprocess_tree spec"
proof -
  let ?p = "preprocess_tree spec"
  have v: "fix_version ?p = ?p"
    by (rule fix_version_fixed [of _ spec])
       (simp add: preprocess_tree_def map_of_fix_paths_other map_of_fix_components_other)
  have c: "fix_components ?p = ?p"
    by (rule fix_components_fixed [of _ "fix_version spec"])
       (simp add: preprocess_tree_def map_of_fix_paths_other)
  have p: "fix_paths ?p = ?p"
    by (rule fix_paths_fixed [of _ "fix_components (fix_version spec)"])
       (simp add: preprocess_tree_def)
  show ?thesis
    by (subst (1) preprocess_tree_def) (simp add: v c p)
qed





section \<open>Claims about the normaliser\<close>






text \<open>
  C5: normalisation is idempotent, on every decoded document (so also on those that are
  already 3.0.0 and hold no null-union): a second pass over the tree changes nothing, and
  on the bytes, when the decoder reads back the tree that the encoder wrote, normalising
  the output returns the output.
\<close>

theorem C5_normalization_idempotent:
  "preprocess_tree (preprocess_tree spec) = preprocess_tree spec
   \<and> (preprocessOpenAPISpec marshal (unmarshal data) = Inr out \<longrightarrow>
        (\<forall>v. marshal v = Some out \<longrightarrow> unmarshal out = Some v) \<longrightarrow>
        preprocessOpenAPISpec marshal (unmarshal out) = Inr out)"
proof (intro conjI impI)
  show "preprocess_tree (preprocess_tree spec) = preprocess_tree spec"
    by (rule preprocess_tree_idem)
next
  assume r: "preprocessOpenAPISpec marshal (unmarshal data) = Inr out"
    and rt: "\<forall>v. marshal v = Some out \<longrightarrow> unmarshal out = Some v"
  from r consider "unmarshal data = Some JNull" "marshal JNull = Some out"
    | s where "unmarshal data = Some (JObj s)" "marshal (JObj (preprocess_tree s)) = Some out"
    by (auto simp: preprocessOpenAPISpec_def split: option.splits json.splits)
  then show "preprocessOpenAPISpec marshal (unmarshal out) = Inr out"
  proof cases
    case 1
    with rt have "unmarshal out = Some JNull" by simp
    with 1 show ?thesis by (simp add: preprocessOpenAPISpec_def)
  next
    case 2
    with rt have "unmarshal out = Some (JObj (preprocess_tree s))" by simp
    with 2 show ?thesis by (simp add: preprocessOpenAPISpec_def preprocess_tree_idem)
  qed
qed


theorem C5_normalization_idempotent_witness:
  "preprocess_tree (preprocess_tree ([(''openapi'', JStr ''3.1.0'') :: (string \<times> nat json)])) = preprocess_tree ([(''openapi'', JStr ''3.1.0'') :: (string \<times> nat json)])
   \<and> preprocessOpenAPISpec (\<lambda>v. if v = JObj [(''openapi'', JStr ''3.0.0'') :: (string \<times> nat json)] then Some ''{\"openapi\":\"3.0.0\"}'' else None) ((\<lambda>d. if d = ''{\"openapi\":\"3.1.0\"}'' then Some (JObj [(''openapi'', JStr ''3.1.0'') :: (string \<times> nat json)]) else if d = ''{\"openapi\":\"3.0.0\"}'' then Some (JObj [(''openapi'', JStr ''3.0.0'') :: (string \<times> nat json)]) else None) ''{\"openapi\":\"3.1.0\"}'') = Inr ''{\"openapi\":\"3.0.0\"}''
   \<and> preprocessOpenAPISpec (\<lambda>v. if v = JObj [(''openapi'', JStr ''3.0.0'') :: (string \<times> nat json)] then Some ''{\"openapi\":\"3.0.0\"}'' else None) ((\<lambda>d. if d = ''{\"openapi\":\"3.1.0\"}'' then Some (JObj [(''openapi'', JStr ''3.1.0'') :: (string \<times> nat json)]) else if d = ''{\"openapi\":\"3.0.0\"}'' then Some (JObj [(''openapi'', JStr ''3.0.0'') :: (string \<times> nat json)]) else None) ''{\"openapi\":\"3.0.0\"}'') = Inr ''{\"openapi\":\"3.0.0\"}''"
proof -
  have r1: "preprocessOpenAPISpec (\<lambda>v. if v = JObj [(''openapi'', JStr ''3.0.0'') :: (string \<times> nat json)] then Some ''{\"openapi\":\"3.0.0\"}'' else None) ((\<lambda>d. if d = ''{\"openapi\":\"3.1.0\"}'' then Some (JObj [(''openapi'', JStr ''3.1.0'') :: (string \<times> nat json)]) else if d = ''{\"openapi\":\"3.0.0\"}'' then Some (JObj [(''openapi'', JStr ''3.0.0'') :: (string \<times> nat json)]) else None) ''{\"openapi\":\"3.1.0\"}'') = Inr ''{\"openapi\":\"3.0.0\"}''"
    by (simp add: preprocessOpenAPISpec_def normalizer_eval string_eval_defs)
  have rt: "\<forall>v. (\<lambda>v. if v = JObj [(''openapi'', JStr ''3.0.0'') :: (string \<times> nat json)] then Some ''{\"openapi\":\"3.0.0\"}'' else None) v = Some ''{\"openapi\":\"3.0.0\"}'' \<longrightarrow> (\<lambda>d. if d = ''{\"openapi\":\"3.1.0\"}'' then Some (JObj [(''openapi'', JStr ''3.1.0'') :: (string \<times> nat json)]) else if d = ''{\"openapi\":\"3.0.0\"}'' then Some (JObj [(''openapi'', JStr ''3.0.0'') :: (string \<times> nat json)]) else None) ''{\"openapi\":\"3.0.0\"}'' = Some v"
    by simp
  note t = C5_normalization_idempotent [of "([(''openapi'', JStr ''3.1.0'') :: (string \<times> nat json)])" "(\<lambda>v. if v = JObj [(''openapi'', JStr ''3.0.0'') :: (string \<times> nat json)] then Some ''{\"openapi\":\"3.0.0\"}'' else None)" "(\<lambda>d. if d = ''{\"openapi\":\"3.1.0\"}'' then Some (JObj [(''openapi'', JStr ''3.1.0'') :: (string \<times> nat json)]) else if d = ''{\"openapi\":\"3.0.0\"}'' then Some (JObj [(''openapi'', JStr ''3.0.0'') :: (string \<times> nat json)]) else None)" "''{\"openapi\":\"3.1.0\"}''" "''{\"openapi\":\"3.0.0\"}''"]
  from t have c1: "preprocess_tree (preprocess_tree ([(''openapi'', JStr ''3.1.0'') :: (string \<times> nat json)])) = preprocess_tree ([(''openapi'', JStr ''3.1.0'') :: (string \<times> nat json)])" by (rule conjunct1)
  from t r1 rt have c2: "preprocessOpenAPISpec (\<lambda>v. if v = JObj [(''openapi'', JStr ''3.0.0'') :: (string \<times> nat json)] then Some ''{\"openapi\":\"3.0.0\"}'' else None) ((\<lambda>d. if d = ''{\"openapi\":\"3.1.0\"}'' then Some (JObj [(''openapi'', JStr ''3.1.0'') :: (string \<times> nat json)]) else if d = ''{\"openapi\":\"3.0.0\"}'' then Some (JObj [(''openapi'', JStr ''3.0.0'') :: (string \<times> nat json)]) else None) ''{\"openapi\":\"3.0.0\"}'') = Inr ''{\"openapi\":\"3.0.0\"}''" by blast
  from c1 r1 c2 show ?thesis by (intro conjI)
qed

section \<open>The live URL and the emitted URL\<close>























end
